theory Spec2Isabelle
  imports Main "HOL-Library.Sublist"
begin

section \<open>Data model\<close>

text \<open>
  A Go \<^verbatim>\<open>error\<close> value is represented by its message; \<^verbatim>\<open>nil\<close> is \<open>None\<close> of
  \<open>error option\<close>.
\<close>

type_synonym error = string

text \<open>\<^verbatim>\<open>type wurl struct { date string; url string }\<close>\<close>

record wurl =
  date :: string
  url :: string

text \<open>
  A run-time panic of the Go program. The only one the modelled code can raise is
  \<^verbatim>\<open>index out of range [i] with length n\<close>.
\<close>

datatype panic = IndexOutOfRange nat nat

text \<open>
  What a call of a function of type \<^verbatim>\<open>(T, error)\<close> ends with: the pair it returns, or
  a panic that unwinds the goroutine (and with it the process).
\<close>

datatype 'a outcome = Panic panic | Return 'a "error option"

text \<open>Slice indexing \<^verbatim>\<open>xs[i]\<close> with Go's bounds check.\<close>

definition index :: "'a list \<Rightarrow> nat \<Rightarrow> panic + 'a" where
  "index xs i = (if i < length xs then Inr (xs ! i) else Inl (IndexOutOfRange i (length xs)))"

section \<open>The standard library, as far as the program uses it\<close>

subsection \<open>fmt\<close>

text \<open>\<^verbatim>\<open>strings.Join\<close>.\<close>

fun Join :: "string list \<Rightarrow> string \<Rightarrow> string" where
  "Join [] sep = []"
| "Join [a] sep = a"
| "Join (a # b # rest) sep = a @ sep @ Join (b # rest) sep"

text \<open>
  \<^verbatim>\<open>fmt.Sprintf\<close> for the formats of this program: the only verb they use is \<^verbatim>\<open>%s\<close>,
  and every operand is a string. A verb without operand prints \<^verbatim>\<open>%!s(MISSING)\<close>,
  operands left over are reported at the end, as the library does.
\<close>

fun Sprintf :: "string \<Rightarrow> string list \<Rightarrow> string" where
  "Sprintf [] args =
     (if args = [] then []
      else ''%!(EXTRA '' @ Join (map (\<lambda>a. ''string='' @ a) args) '', '' @ '')'')"
| "Sprintf [c] args = (if c = CHR ''%'' then ''%!(NOVERB)'' else [c]) @ Sprintf [] args"
| "Sprintf (c # v # fs) args =
     (if c = CHR ''%'' \<and> v = CHR ''s''
      then (case args of
              [] \<Rightarrow> ''%!s(MISSING)'' @ Sprintf fs []
            | a # rest \<Rightarrow> a @ Sprintf fs rest)
      else c # Sprintf (v # fs) args)"

subsection \<open>net/http, io, encoding/json, os, net/url\<close>

text \<open>
  A response as the program reads it: the bytes its body delivers, and the error the
  body's reader ends with (\<open>None\<close> for a clean end of file).
\<close>

record response =
  body :: string
  body_err :: "error option"

text \<open>The anonymous struct a crawl-index line is decoded into.\<close>

record cc_wrapper =
  cc_URL :: string
  cc_Timestamp :: string

text \<open>\<^verbatim>\<open>url.URL\<close>: of its fields the program reads \<^verbatim>\<open>Host\<close> only (through \<^verbatim>\<open>Hostname()\<close>).\<close>

record URL =
  Host :: string

text \<open>
  Everything outside the program that its functions call: the network behind the shared
  \<^verbatim>\<open>httpClient\<close>, the JSON decoders at the four types the program decodes into, the
  line scanner, the process environment and the URL parser. A decoder returns what it
  left in the destination together with its error: \<^verbatim>\<open>encoding/json\<close> may fill the
  destination partly and still report an error.
\<close>

record sys =
  http_Get :: "string \<Rightarrow> error + response"
  json_Unmarshal_rows :: "string \<Rightarrow> string list list \<times> error option"
  json_Unmarshal_cc :: "string \<Rightarrow> cc_wrapper \<times> error option"
  json_Decode_vt :: "response \<Rightarrow> string list \<times> error option"
  json_Decode_rows :: "response \<Rightarrow> string list list \<times> error option"
  Scanner_lines :: "response \<Rightarrow> string list"
  environ :: "string \<rightharpoonup> string"
  url_Parse :: "string \<Rightarrow> error + URL"
  unicode_ToLower :: "string \<Rightarrow> string"

text \<open>\<^verbatim>\<open>ioutil.ReadAll(res.Body)\<close>: the bytes, or the reader's error.\<close>

definition ioutil_ReadAll :: "response \<Rightarrow> error + string" where
  "ioutil_ReadAll res = (case body_err res of Some e \<Rightarrow> Inl e | None \<Rightarrow> Inr (body res))"

text \<open>\<^verbatim>\<open>os.Getenv\<close>: the empty string for a variable that is not set.\<close>

definition os_Getenv :: "sys \<Rightarrow> string \<Rightarrow> string" where
  "os_Getenv s k = (case environ s k of None \<Rightarrow> [] | Some v \<Rightarrow> v)"

definition isDigitByte :: "char \<Rightarrow> bool" where
  "isDigitByte c = (48 \<le> (of_char c :: nat) \<and> (of_char c :: nat) \<le> 57)"

text \<open>\<^verbatim>\<open>strings.LastIndexByte\<close>, with \<open>None\<close> for \<^verbatim>\<open>-1\<close>.\<close>

fun LastIndexByte :: "string \<Rightarrow> char \<Rightarrow> nat option" where
  "LastIndexByte [] c = None"
| "LastIndexByte (x # xs) c =
     (case LastIndexByte xs c of
        Some i \<Rightarrow> Some (Suc i)
      | None \<Rightarrow> if x = c then Some 0 else None)"

definition validOptionalPort :: "string \<Rightarrow> bool" where
  "validOptionalPort port =
     (case port of
        [] \<Rightarrow> True
      | c # rest \<Rightarrow> c = CHR '':'' \<and> list_all isDigitByte rest)"

text \<open>\<^verbatim>\<open>(*URL).Hostname\<close>: the host without a valid port and without IPv6 brackets.\<close>

definition Hostname :: "URL \<Rightarrow> string" where
  "Hostname u =
     (let host = (case LastIndexByte (Host u) (CHR '':'') of
                    Some colon \<Rightarrow>
                      if validOptionalPort (drop colon (Host u)) then take colon (Host u)
                      else Host u
                  | None \<Rightarrow> Host u)
      in if host \<noteq> [] \<and> hd host = CHR ''['' \<and> last host = CHR '']''
         then butlast (tl host) else host)"

text \<open>
  \<^verbatim>\<open>strings.ToLower\<close>: a string of ASCII bytes is lowered byte by byte; any other
  string goes through the Unicode tables, which are a parameter.
\<close>

definition lowerByte :: "char \<Rightarrow> char" where
  "lowerByte c =
     (if 65 \<le> (of_char c :: nat) \<and> (of_char c :: nat) \<le> 90
      then char_of (of_char c + (32 :: nat)) else c)"

definition strings_ToLower :: "sys \<Rightarrow> string \<Rightarrow> string" where
  "strings_ToLower s str =
     (if list_all (\<lambda>c. (of_char c :: nat) < 128) str then map lowerByte str
      else unicode_ToLower s str)"

section \<open>Source adapters\<close>

text \<open>
  An adapter returns the URLs it requested from the network, in order, and the outcome
  of the call.
\<close>

type_synonym fetch_result = "string list \<times> wurl list outcome"

subsection \<open>getWaybackURLs\<close>

definition waybackQuery :: "string \<Rightarrow> bool \<Rightarrow> string" where
  "waybackQuery domain noSubs =
     (let subsWildcard = (if noSubs then [] else ''*.'')
      in Sprintf ''http://web.archive.org/cdx/search/cdx?url=%s%s/*&output=json&collapse=urlkey''
           [subsWildcard, domain])"

text \<open>The loop over \<^verbatim>\<open>wrapper\<close>, with the flag \<^verbatim>\<open>skip\<close> and the slice \<^verbatim>\<open>out\<close>.\<close>

fun wayback_rows :: "bool \<Rightarrow> string list list \<Rightarrow> wurl list \<Rightarrow> panic + wurl list" where
  "wayback_rows skip [] out = Inr out"
| "wayback_rows skip (urls # rest) out =
     (if skip then wayback_rows False rest out
      else (case index urls 1 of
              Inl p \<Rightarrow> Inl p
            | Inr d \<Rightarrow>
                (case index urls 2 of
                   Inl p \<Rightarrow> Inl p
                 | Inr u \<Rightarrow> wayback_rows False rest (out @ [\<lparr>date = d, url = u\<rparr>]))))"

definition getWaybackURLs :: "sys \<Rightarrow> string \<Rightarrow> bool \<Rightarrow> fetch_result" where
  "getWaybackURLs s domain noSubs =
     (let q = waybackQuery domain noSubs in
      case http_Get s q of
        Inl err \<Rightarrow> ([q], Return [] (Some err))
      | Inr res \<Rightarrow>
          (case ioutil_ReadAll res of
             Inl err \<Rightarrow> ([q], Return [] (Some err))
           | Inr raw \<Rightarrow>
               (case json_Unmarshal_rows s raw of
                  (wrapper, err) \<Rightarrow>
                    (case wayback_rows True wrapper [] of
                       Inl p \<Rightarrow> ([q], Panic p)
                     | Inr out \<Rightarrow> ([q], Return out None)))))"

subsection \<open>getCommonCrawlURLs\<close>

definition commonCrawlQuery :: "string \<Rightarrow> bool \<Rightarrow> string" where
  "commonCrawlQuery domain noSubs =
     (let subsWildcard = (if noSubs then [] else ''*.'')
      in Sprintf ''http://index.commoncrawl.org/CC-MAIN-2018-22-index?url=%s%s/*&output=json''
           [subsWildcard, domain])"

text \<open>The loop over the scanned lines; a line that does not decode is skipped.\<close>

fun commoncrawl_lines :: "sys \<Rightarrow> string list \<Rightarrow> wurl list \<Rightarrow> wurl list" where
  "commoncrawl_lines s [] out = out"
| "commoncrawl_lines s (line # rest) out =
     (case json_Unmarshal_cc s line of
        (wrapper, Some err) \<Rightarrow> commoncrawl_lines s rest out
      | (wrapper, None) \<Rightarrow>
          commoncrawl_lines s rest
            (out @ [\<lparr>date = cc_Timestamp wrapper, url = cc_URL wrapper\<rparr>]))"

definition getCommonCrawlURLs :: "sys \<Rightarrow> string \<Rightarrow> bool \<Rightarrow> fetch_result" where
  "getCommonCrawlURLs s domain noSubs =
     (let q = commonCrawlQuery domain noSubs in
      case http_Get s q of
        Inl err \<Rightarrow> ([q], Return [] (Some err))
      | Inr res \<Rightarrow> ([q], Return (commoncrawl_lines s (Scanner_lines s res) []) None))"

subsection \<open>getVirusTotalURLs\<close>

fun virustotal_urls :: "string list \<Rightarrow> wurl list \<Rightarrow> wurl list" where
  "virustotal_urls [] out = out"
| "virustotal_urls (u # rest) out = virustotal_urls rest (out @ [\<lparr>date = [], url = u\<rparr>])"

definition getVirusTotalURLs :: "sys \<Rightarrow> string \<Rightarrow> bool \<Rightarrow> fetch_result" where
  "getVirusTotalURLs s domain noSubs =
     (let apiKey = os_Getenv s ''VT_API_KEY'' in
      if apiKey = [] then ([], Return [] None)
      else
        (let fetchURL =
               Sprintf ''https://www.virustotal.com/vtapi/v2/domain/report?apikey=%s&domain=%s''
                 [apiKey, domain]
         in case http_Get s fetchURL of
              Inl err \<Rightarrow> ([fetchURL], Return [] (Some err))
            | Inr resp \<Rightarrow>
                (case json_Decode_vt s resp of
                   (urls, err) \<Rightarrow> ([fetchURL], Return (virustotal_urls urls []) None))))"

subsection \<open>isSubdomain\<close>

definition isSubdomain :: "sys \<Rightarrow> string \<Rightarrow> string \<Rightarrow> bool" where
  "isSubdomain s rawUrl domain =
     (case url_Parse s rawUrl of
        Inl err \<Rightarrow> False
      | Inr u \<Rightarrow> strings_ToLower s (Hostname u) \<noteq> strings_ToLower s domain)"

section \<open>Version lister\<close>

text \<open>The map \<^verbatim>\<open>seen\<close>: reading a missing key gives \<^verbatim>\<open>false\<close>.\<close>

definition lookup_bool :: "(string \<rightharpoonup> bool) \<Rightarrow> string \<Rightarrow> bool" where
  "lookup_bool m k = (case m k of None \<Rightarrow> False | Some b \<Rightarrow> b)"

fun versions_rows ::
  "bool \<Rightarrow> (string \<rightharpoonup> bool) \<Rightarrow> string list list \<Rightarrow> string list \<Rightarrow> panic + string list" where
  "versions_rows first seen [] out = Inr out"
| "versions_rows first seen (r # rest) out =
     (if first then versions_rows False seen rest out
      else (case index r 5 of
              Inl p \<Rightarrow> Inl p
            | Inr digest \<Rightarrow>
                if lookup_bool seen digest then versions_rows False seen rest out
                else (case index r 1 of
                        Inl p \<Rightarrow> Inl p
                      | Inr ts \<Rightarrow>
                          (case index r 2 of
                             Inl p \<Rightarrow> Inl p
                           | Inr orig \<Rightarrow>
                               versions_rows False (seen(digest \<mapsto> True)) rest
                                 (out @ [Sprintf ''https://web.archive.org/web/%sif_/%s''
                                           [ts, orig]])))))"

definition versionsQuery :: "string \<Rightarrow> string" where
  "versionsQuery u = Sprintf ''http://web.archive.org/cdx/search/cdx?url=%s&output=json'' [u]"

definition getVersions :: "sys \<Rightarrow> string \<Rightarrow> string list \<times> string list outcome" where
  "getVersions s u =
     (let q = versionsQuery u in
      case http_Get s q of
        Inl err \<Rightarrow> ([q], Return [] (Some err))
      | Inr resp \<Rightarrow>
          (case json_Decode_rows s resp of
             (r, Some err) \<Rightarrow> ([q], Return [] (Some err))
           | (r, None) \<Rightarrow>
               (case versions_rows True Map.empty r [] of
                  Inl p \<Rightarrow> ([q], Panic p)
                | Inr out \<Rightarrow> ([q], Return out None))))"

section \<open>Dispatcher\<close>

text \<open>
  The loop of one adapter's goroutine over \<^verbatim>\<open>resp\<close>: the records it sends on the
  channel \<^verbatim>\<open>wurls\<close>, in order.
\<close>

fun send_records :: "sys \<Rightarrow> bool \<Rightarrow> string \<Rightarrow> wurl list \<Rightarrow> wurl list" where
  "send_records s noSubs domain [] = []"
| "send_records s noSubs domain (r # resp) =
     (if noSubs \<and> isSubdomain s (url r) domain then send_records s noSubs domain resp
      else r # send_records s noSubs domain resp)"

text \<open>
  The goroutine started for one adapter: it calls the adapter, returns without sending
  when the adapter gives an error, and sends the filtered records otherwise. A panic of
  the adapter is a panic of the goroutine.
\<close>

definition adapter_task ::
  "sys \<Rightarrow> (sys \<Rightarrow> string \<Rightarrow> bool \<Rightarrow> fetch_result) \<Rightarrow> string \<Rightarrow> bool \<Rightarrow> panic + wurl list" where
  "adapter_task s fetch domain noSubs =
     (case snd (fetch s domain noSubs) of
        Panic p \<Rightarrow> Inl p
      | Return resp (Some err) \<Rightarrow> Inr []
      | Return resp None \<Rightarrow> Inr (send_records s noSubs domain resp))"

section \<open>Timestamps\<close>

text \<open>
  \<^verbatim>\<open>time.Time\<close>, by its calendar fields in UTC. \<^verbatim>\<open>time.Parse\<close> checks every field's
  range before it builds the value, so no field is ever normalised, and a layout without
  zone gives UTC.
\<close>

record Time =
  year :: nat
  month :: nat
  day :: nat
  hour :: nat
  minute :: nat
  second :: nat
  nsec :: nat

text \<open>The zero \<^verbatim>\<open>Time{}\<close>: January 1, year 1, 00:00:00 UTC.\<close>

definition zeroTime :: Time where
  "zeroTime = \<lparr>year = 1, month = 1, day = 1, hour = 0, minute = 0, second = 0, nsec = 0\<rparr>"

datatype parse_error = errBad | OutOfRange string | ExtraText string | DayOutOfRange

definition isDigit :: "string \<Rightarrow> nat \<Rightarrow> bool" where
  "isDigit s i = (i < length s \<and> isDigitByte (s ! i))"

definition digit :: "char \<Rightarrow> nat" where
  "digit c = of_char c - 48"

text \<open>
  \<^verbatim>\<open>atoi\<close> of package time, on a string whose first byte the caller has checked to be
  a digit (so its sign branch is not reached): every byte must be a digit.
\<close>

definition decimal :: "string \<Rightarrow> nat" where
  "decimal p = foldl (\<lambda>x c. x * 10 + digit c) 0 p"

definition atoi :: "string \<Rightarrow> parse_error + nat" where
  "atoi p = (if list_all isDigitByte p then Inr (decimal p) else Inl errBad)"

definition getnum :: "string \<Rightarrow> bool \<Rightarrow> parse_error + nat \<times> string" where
  "getnum s fixed =
     (if \<not> isDigit s 0 then Inl errBad
      else if \<not> isDigit s 1 then
        (if fixed then Inl errBad else Inr (digit (s ! 0), drop 1 s))
      else Inr (digit (s ! 0) * 10 + digit (s ! 1), drop 2 s))"

definition isLeap :: "nat \<Rightarrow> bool" where
  "isLeap y = (y mod 4 = 0 \<and> (y mod 100 \<noteq> 0 \<or> y mod 400 = 0))"

definition daysIn :: "nat \<Rightarrow> nat \<Rightarrow> nat" where
  "daysIn m y =
     (if m = 2 then (if isLeap y then 29 else 28)
      else if m = 4 \<or> m = 6 \<or> m = 9 \<or> m = 11 then 30 else 31)"

definition commaOrPeriod :: "char \<Rightarrow> bool" where
  "commaOrPeriod c = (c = CHR ''.'' \<or> c = CHR '','')"

text \<open>
  A fractional second in the input that the layout does not have is read all the same:
  the nanoseconds, and the input after the digits.
\<close>

definition parseNanoseconds :: "string \<Rightarrow> nat \<Rightarrow> parse_error + nat" where
  "parseNanoseconds v nbytes =
     (let nb = (if 10 < nbytes then 10 else nbytes) in
      case atoi (take (nb - 1) (drop 1 v)) of
        Inl e \<Rightarrow> Inl e
      | Inr ns \<Rightarrow> Inr (ns * 10 ^ (10 - nb)))"

definition fractional :: "string \<Rightarrow> parse_error + nat \<times> string" where
  "fractional v =
     (if 2 \<le> length v \<and> commaOrPeriod (v ! 0) \<and> isDigit v 1
      then (let n = 2 + length (takeWhile isDigitByte (drop 2 v)) in
            case parseNanoseconds v n of
              Inl e \<Rightarrow> Inl e
            | Inr ns \<Rightarrow> Inr (ns, drop n v))
      else Inr (0, v))"

text \<open>
  \<^verbatim>\<open>time.Parse("20060102150405", v)\<close>, chunk by chunk: a four-digit year, two-digit
  month and day, the hour (one or two digits), two-digit minute and second, then nothing
  but an optional fractional second. The day is checked against its month at the end.
\<close>

definition parse_fields :: "string \<Rightarrow> parse_error + Time" where
  "parse_fields v =
     (if length v < 4 \<or> \<not> isDigit v 0 then Inl errBad
      else case atoi (take 4 v) of Inl e \<Rightarrow> Inl e | Inr y \<Rightarrow>
      (case getnum (drop 4 v) True of Inl e \<Rightarrow> Inl e | Inr (mo, v2) \<Rightarrow>
       if mo = 0 \<or> 12 < mo then Inl (OutOfRange ''month'')
       else (case getnum v2 True of Inl e \<Rightarrow> Inl e | Inr (d, v3) \<Rightarrow>
       (case getnum v3 False of Inl e \<Rightarrow> Inl e | Inr (h, v4) \<Rightarrow>
        if 24 \<le> h then Inl (OutOfRange ''hour'')
        else (case getnum v4 True of Inl e \<Rightarrow> Inl e | Inr (mi, v5) \<Rightarrow>
        if 60 \<le> mi then Inl (OutOfRange ''minute'')
        else (case getnum v5 True of Inl e \<Rightarrow> Inl e | Inr (sec, v6) \<Rightarrow>
        if 60 \<le> sec then Inl (OutOfRange ''second'')
        else (case fractional v6 of Inl e \<Rightarrow> Inl e | Inr (ns, v7) \<Rightarrow>
        if v7 \<noteq> [] then Inl (ExtraText v7)
        else if d < 1 \<or> daysIn mo y < d then Inl DayOutOfRange
        else Inr \<lparr>year = y, month = mo, day = d, hour = h, minute = mi,
                   second = sec, nsec = ns\<rparr>)))))))"

text \<open>\<^verbatim>\<open>time.Parse\<close> returns the zero time with every error.\<close>

definition time_Parse :: "string \<Rightarrow> Time \<times> parse_error option" where
  "time_Parse v = (case parse_fields v of Inl e \<Rightarrow> (zeroTime, Some e) | Inr t \<Rightarrow> (t, None))"

text \<open>Decimal digits of a number, and \<^verbatim>\<open>appendInt\<close>: zero padding up to a width.\<close>

definition digitChar :: "nat \<Rightarrow> char" where
  "digitChar n = char_of (48 + n)"

fun utoa :: "nat \<Rightarrow> string" where
  "utoa n = (if n < 10 then [digitChar n] else utoa (n div 10) @ [digitChar (n mod 10)])"

declare utoa.simps [simp del]

definition appendInt :: "nat \<Rightarrow> nat \<Rightarrow> string" where
  "appendInt x width = replicate (width - length (utoa x)) (CHR ''0'') @ utoa x"

text \<open>\<^verbatim>\<open>t.Format(time.RFC3339)\<close> of a time in UTC.\<close>

definition Format_RFC3339 :: "Time \<Rightarrow> string" where
  "Format_RFC3339 t =
     appendInt (year t) 4 @ ''-'' @ appendInt (month t) 2 @ ''-'' @ appendInt (day t) 2 @ ''T''
     @ appendInt (hour t) 2 @ '':'' @ appendInt (minute t) 2 @ '':'' @ appendInt (second t) 2
     @ ''Z''"

section \<open>Deduplicator and formatter\<close>

text \<open>
  What the program has written: the writes to the output file and those to the
  diagnostic stream, each in order, one entry per call of \<^verbatim>\<open>Fprintf\<close> or \<^verbatim>\<open>Fprintln\<close>.
\<close>

record writes =
  stdout :: "string list"
  stderr :: "string list"

text \<open>
  The loop \<^verbatim>\<open>for w := range wurls\<close> of one target, over the records in the order the
  channel delivers them, with the map \<^verbatim>\<open>seen\<close>.
\<close>

fun consume :: "bool \<Rightarrow> (string \<rightharpoonup> bool) \<Rightarrow> wurl list \<Rightarrow> writes \<Rightarrow> writes" where
  "consume dates seen [] out = out"
| "consume dates seen (w # ws) out =
     (if seen (url w) \<noteq> None then consume dates seen ws out
      else if dates then
        (case time_Parse (date w) of
           (d, err) \<Rightarrow>
             (let out1 = (if err \<noteq> None
                          then out\<lparr>stderr := stderr out @
                                 [Sprintf ''failed to parse date [%s] for URL [%s]\<newline>''
                                    [date w, url w]]\<rparr>
                          else out)
              in consume dates (seen(url w \<mapsto> True)) ws
                   (out1\<lparr>stdout := stdout out1 @
                      [Sprintf ''%s %s\<newline>'' [Format_RFC3339 d, url w]]\<rparr>)))
      else consume dates (seen(url w \<mapsto> True)) ws
             (out\<lparr>stdout := stdout out @ [url w @ ''\<newline>'']\<rparr>))"

text \<open>
  The loop over the targets: \<^verbatim>\<open>seen\<close> is made anew inside the loop body. Each target
  comes with the records its channel delivers.
\<close>

fun for_domains :: "bool \<Rightarrow> wurl list list \<Rightarrow> writes \<Rightarrow> writes" where
  "for_domains dates [] out = out"
| "for_domains dates (wurls # rest) out =
     for_domains dates rest (consume dates Map.empty wurls out)"

section \<open>Specification-side notions\<close>

text \<open>
  The elements of a list that are the first with their key, in the order of the list:
  what "first occurrence wins" means, said without a table of keys already seen.
\<close>

fun first_by :: "('a \<Rightarrow> 'k) \<Rightarrow> 'a list \<Rightarrow> 'a list" where
  "first_by key [] = []"
| "first_by key (x # xs) = x # first_by key (filter (\<lambda>y. key y \<noteq> key x) xs)"

text \<open>The content digest of a row of the version listing: column 5.\<close>

definition digest_of :: "string list \<Rightarrow> string" where
  "digest_of row = row ! 5"

text \<open>The snapshot URL of a row: timestamp in column 1, original URL in column 2.\<close>

definition snapshot :: "string list \<Rightarrow> string" where
  "snapshot row = ''https://web.archive.org/web/'' @ row ! 1 @ ''if_/'' @ row ! 2"

text \<open>
  A timestamp \<^verbatim>\<open>YYYYMMDDHHMMSS\<close> written as \<^verbatim>\<open>YYYY-MM-DDTHH:MM:SSZ\<close>, digit for digit.
\<close>

definition iso8601 :: "string \<Rightarrow> string" where
  "iso8601 ts =
     take 4 ts @ ''-'' @ take 2 (drop 4 ts) @ ''-'' @ take 2 (drop 6 ts) @ ''T''
     @ take 2 (drop 8 ts) @ '':'' @ take 2 (drop 10 ts) @ '':'' @ take 2 (drop 12 ts) @ ''Z''"

text \<open>
  A well-formed archive timestamp: fourteen digits that name a month, a day of that
  month, an hour, a minute and a second.
\<close>

definition archive_timestamp :: "string \<Rightarrow> bool" where
  "archive_timestamp ts =
     (length ts = 14 \<and> list_all isDigitByte ts
      \<and> 1 \<le> decimal (take 2 (drop 4 ts)) \<and> decimal (take 2 (drop 4 ts)) \<le> 12
      \<and> 1 \<le> decimal (take 2 (drop 6 ts))
      \<and> decimal (take 2 (drop 6 ts))
          \<le> daysIn (decimal (take 2 (drop 4 ts))) (decimal (take 4 ts))
      \<and> decimal (take 2 (drop 8 ts)) < 24
      \<and> decimal (take 2 (drop 10 ts)) < 60
      \<and> decimal (take 2 (drop 12 ts)) < 60)"

text \<open>The line written for a record: the bare URL, or the date, a space and the URL.\<close>

definition output_line :: "bool \<Rightarrow> wurl \<Rightarrow> string" where
  "output_line dates w =
     (if dates then Format_RFC3339 (fst (time_Parse (date w))) @ '' '' @ url w @ ''\<newline>''
      else url w @ ''\<newline>'')"

text \<open>The warning written for a record whose date does not parse.\<close>

definition warning_line :: "wurl \<Rightarrow> string" where
  "warning_line w = ''failed to parse date ['' @ date w @ ''] for URL ['' @ url w @ '']\<newline>''"

text \<open>
  URL-encoding of a query component as \<^verbatim>\<open>url.QueryEscape\<close> does it: letters, digits and
  \<^verbatim>\<open>- _ . ~\<close> stay, a space becomes \<^verbatim>\<open>+\<close>, every other byte becomes \<^verbatim>\<open>%XX\<close>. The
  program never calls it; the definition states what an encoded query would be.
\<close>

definition unreserved :: "char \<Rightarrow> bool" where
  "unreserved c =
     (let n = (of_char c :: nat) in
      (97 \<le> n \<and> n \<le> 122) \<or> (65 \<le> n \<and> n \<le> 90) \<or> (48 \<le> n \<and> n \<le> 57)
      \<or> c = CHR ''-'' \<or> c = CHR ''_'' \<or> c = CHR ''.'' \<or> c = CHR ''~'')"

definition upperhex :: "nat \<Rightarrow> char" where
  "upperhex n = ''0123456789ABCDEF'' ! n"

fun QueryEscape :: "string \<Rightarrow> string" where
  "QueryEscape [] = []"
| "QueryEscape (c # cs) =
     (if c = CHR '' '' then ''+''
      else if unreserved c then [c]
      else [CHR ''%'', upperhex ((of_char c :: nat) div 16), upperhex ((of_char c :: nat) mod 16)])
     @ QueryEscape cs"

text \<open>
  The archive-index query as it would be with the wildcard marker and the target
  URL-encoded into the query string.
\<close>

definition encodedWaybackQuery :: "string \<Rightarrow> bool \<Rightarrow> string" where
  "encodedWaybackQuery domain noSubs =
     ''http://web.archive.org/cdx/search/cdx?url=''
     @ QueryEscape ((if noSubs then [] else ''*.'') @ domain)
     @ ''/*&output=json&collapse=urlkey''"

section \<open>Concrete systems\<close>

text \<open>The column names the archive index sends as its first row.\<close>

definition cdx_header :: "string list" where
  "cdx_header =
     [''urlkey'', ''timestamp'', ''original'', ''mimetype'', ''statuscode'', ''digest'', ''length'']"

text \<open>The JSON text of an array of string arrays (strings without escapes).\<close>

definition json_string :: "string \<Rightarrow> string" where
  "json_string str = CHR 0x22 # str @ [CHR 0x22]"

definition json_rows :: "string list list \<Rightarrow> string" where
  "json_rows rows =
     ''['' @ Join (map (\<lambda>row. ''['' @ Join (map json_string row) '','' @ '']'') rows) '','' @ '']''"

text \<open>
  What \<^verbatim>\<open>url.Parse\<close> gives on the URLs of the examples: a host with a port, a host
  below the target, and an IPv6 literal whose bracket is not closed, which does not
  parse.
\<close>

definition example_Parse :: "string \<Rightarrow> error + URL" where
  "example_Parse rawUrl =
     (if rawUrl = ''http://sub.example.com/login'' then Inr \<lparr>Host = ''sub.example.com''\<rparr>
      else if rawUrl = ''http://EXAMPLE.com:8080/'' then Inr \<lparr>Host = ''EXAMPLE.com:8080''\<rparr>
      else if rawUrl = ''http://[::1'' then Inl ''missing ] in host''
      else Inr \<lparr>Host = []\<rparr>)"

text \<open>A machine without network and without credential.\<close>

definition offline_sys :: sys where
  "offline_sys =
     \<lparr>http_Get = (\<lambda>q. Inl ''dial tcp: connection refused''),
      json_Unmarshal_rows = (\<lambda>raw. ([], Some ''unexpected end of JSON input'')),
      json_Unmarshal_cc =
        (\<lambda>line. (\<lparr>cc_URL = [], cc_Timestamp = []\<rparr>, Some ''unexpected end of JSON input'')),
      json_Decode_vt = (\<lambda>resp. ([], Some ''EOF'')),
      json_Decode_rows = (\<lambda>resp. ([], Some ''EOF'')),
      Scanner_lines = (\<lambda>resp. []),
      environ = Map.empty,
      url_Parse = example_Parse,
      unicode_ToLower = (\<lambda>str. str)\<rparr>"

text \<open>An archive index that answers every request with the given rows.\<close>

definition archive_sys :: "string list list \<Rightarrow> sys" where
  "archive_sys rows =
     offline_sys
       \<lparr>http_Get := (\<lambda>q. Inr \<lparr>body = json_rows rows, body_err = None\<rparr>),
        json_Unmarshal_rows :=
          (\<lambda>raw. if raw = json_rows rows then (rows, None)
                 else ([], Some ''unexpected end of JSON input'')),
        json_Decode_rows :=
          (\<lambda>resp. if body resp = json_rows rows then (rows, None) else ([], Some ''EOF''))\<rparr>"

text \<open>
  A credential is set, and every service answers with an HTML error page: no decoder
  accepts it, and none touches its destination.
\<close>

definition error_page_sys :: sys where
  "error_page_sys =
     offline_sys
       \<lparr>http_Get :=
          (\<lambda>q. Inr \<lparr>body = ''<html><body><h1>503 Service Unavailable</h1></body></html>'',
                     body_err = None\<rparr>),
        json_Unmarshal_rows :=
          (\<lambda>raw. ([], Some ''invalid character < looking for beginning of value'')),
        json_Decode_vt :=
          (\<lambda>resp. ([], Some ''invalid character < looking for beginning of value'')),
        environ := [''VT_API_KEY'' \<mapsto> ''0123456789abcdef'']\<rparr>"

text \<open>
  The archive index answers with a row whose third field is the number 42 and not a
  string: the decoder reports the mismatch, leaves that field empty and fills the rest.
\<close>

definition mistyped_sys :: sys where
  "mistyped_sys =
     offline_sys
       \<lparr>http_Get :=
          (\<lambda>q. Inr \<lparr>body = ''[['' @ Join (map json_string cdx_header) '','' @ ''],[''
                       @ json_string ''com,example)/'' @ '','' @ json_string ''20200101000000''
                       @ '',42]]'',
                     body_err = None\<rparr>),
        json_Unmarshal_rows :=
          (\<lambda>raw. ([cdx_header, [''com,example)/'', ''20200101000000'', []]],
                  Some ''json: cannot unmarshal number into Go value of type string''))\<rparr>"

text \<open>
  Captures as the archive index lists them. The second capture of the page has the
  digest of the first and another timestamp.
\<close>

definition capture_a :: "string list" where
  "capture_a =
     [''com,example)/'', ''20200101000000'', ''http://example.com/'', ''text/html'', ''200'',
      ''3I42H3S6NNFQ2MSVX7XZKYAYSCX5QBYJ'', ''1234'']"

definition capture_a_again :: "string list" where
  "capture_a_again =
     [''com,example)/'', ''20210615120000'', ''http://example.com/'', ''text/html'', ''200'',
      ''3I42H3S6NNFQ2MSVX7XZKYAYSCX5QBYJ'', ''1240'']"

definition capture_b :: "string list" where
  "capture_b =
     [''com,example)/about'', ''20200102030405'', ''http://example.com/about'', ''text/html'',
      ''200'', ''TW4VUQHVXZ6MHFCELR4ZLFGYQJDQ7P3L'', ''987'']"

section \<open>Facts about first occurrences\<close>

lemma first_by_subseq: "subseq (first_by key xs) xs"
proof (induction key xs rule: first_by.induct)
  case (1 key)
  show ?case by simp
next
  case (2 key x xs)
  have "subseq (filter (\<lambda>y. key y \<noteq> key x) xs) xs" by simp
  with 2 have "subseq (first_by key (filter (\<lambda>y. key y \<noteq> key x) xs)) xs"
    by (rule subseq_order.trans)
  then show ?case by simp
qed

lemma first_by_subset: "set (first_by key xs) \<subseteq> set xs"
  by (induction key xs rule: first_by.induct) auto

lemma first_by_keys: "key ` set (first_by key xs) = key ` set xs"
proof (induction key xs rule: first_by.induct)
  case (1 key)
  show ?case by simp
next
  case (2 key x xs)
  then show ?case by auto
qed

lemma first_by_distinct: "distinct (map key (first_by key xs))"
proof (induction key xs rule: first_by.induct)
  case (1 key)
  show ?case by simp
next
  case (2 key x xs)
  have "key x \<notin> key ` set (filter (\<lambda>y. key y \<noteq> key x) xs)" by auto
  then have "key x \<notin> key ` set (first_by key (filter (\<lambda>y. key y \<noteq> key x) xs))"
    unfolding first_by_keys .
  with 2 show ?case by simp
qed

lemma find_filter_other:
  "k \<noteq> k' \<Longrightarrow>
   find (\<lambda>y. key y = k) (filter (\<lambda>y. key y \<noteq> k') xs) = find (\<lambda>y. key y = k) xs"
  by (induction xs) auto

lemma first_by_find:
  "x \<in> set (first_by key xs) \<Longrightarrow> find (\<lambda>y. key y = key x) xs = Some x"
proof (induction key xs rule: first_by.induct)
  case (1 key)
  then show ?case by simp
next
  case (2 key a xs)
  show ?case
  proof (cases "x = a")
    case True
    then show ?thesis by simp
  next
    case False
    with "2.prems" have mem: "x \<in> set (first_by key (filter (\<lambda>y. key y \<noteq> key a) xs))"
      by simp
    with first_by_subset [of key "filter (\<lambda>y. key y \<noteq> key a) xs"]
    have ne: "key x \<noteq> key a" by auto
    from "2.IH" [OF mem] have "find (\<lambda>y. key y = key x) xs = Some x"
      by (simp add: find_filter_other [OF ne])
    with ne show ?thesis by auto
  qed
qed

section \<open>The row loops of the archive-index decoders\<close>

lemma wayback_rows_skip: "wayback_rows True wrapper out = wayback_rows False (tl wrapper) out"
  by (cases wrapper) simp_all

lemma wayback_rows_ok:
  "list_all (\<lambda>row. 3 \<le> length row) rows \<Longrightarrow>
   wayback_rows False rows out
     = Inr (out @ map (\<lambda>row. \<lparr>date = row ! 1, url = row ! 2\<rparr>) rows)"
  by (induction rows arbitrary: out) (simp_all add: index_def)

lemma wayback_rows_panic:
  "\<not> list_all (\<lambda>row. 3 \<le> length row) rows \<Longrightarrow> \<exists>p. wayback_rows False rows out = Inl p"
proof (induction rows arbitrary: out)
  case Nil
  then show ?case by simp
next
  case (Cons r rows)
  show ?case
  proof (cases "3 \<le> length r")
    case True
    with Cons.prems have "\<not> list_all (\<lambda>row. 3 \<le> length row) rows" by simp
    from Cons.IH [OF this] True show ?thesis by (simp add: index_def)
  next
    case False
    then show ?thesis by (simp add: index_def)
  qed
qed

lemma versions_rows_skip:
  "versions_rows True seen r out = versions_rows False seen (tl r) out"
  by (cases r) simp_all

lemma versions_rows_panic:
  "\<not> list_all (\<lambda>row. 6 \<le> length row) rows \<Longrightarrow>
   \<exists>p. versions_rows False seen rows out = Inl p"
proof (induction rows arbitrary: seen out)
  case Nil
  then show ?case by simp
next
  case (Cons r rows)
  show ?case
  proof (cases "6 \<le> length r")
    case True
    with Cons.prems have "\<not> list_all (\<lambda>row. 6 \<le> length row) rows" by simp
    from Cons.IH [OF this] True show ?thesis by (simp add: index_def)
  next
    case False
    then show ?thesis by (simp add: index_def)
  qed
qed

lemma versions_rows_ok:
  "list_all (\<lambda>row. 6 \<le> length row) rows \<Longrightarrow>
   versions_rows False seen rows out
     = Inr (out @ map snapshot
              (first_by digest_of (filter (\<lambda>row. \<not> lookup_bool seen (digest_of row)) rows)))"
proof (induction rows arbitrary: seen out)
  case Nil
  then show ?case by simp
next
  case (Cons r rows)
  then have len: "6 \<le> length r" and rest: "list_all (\<lambda>row. 6 \<le> length row) rows"
    by simp_all
  have flt: "filter (\<lambda>row. \<not> lookup_bool (seen(digest_of r \<mapsto> True)) (digest_of row)) rows
      = filter (\<lambda>row. digest_of row \<noteq> digest_of r)
          (filter (\<lambda>row. \<not> lookup_bool seen (digest_of row)) rows)"
    by (induction rows) (auto simp: lookup_bool_def)
  show ?case
  proof (cases "lookup_bool seen (digest_of r)")
    case True
    with len Cons.IH [OF rest] show ?thesis by (simp add: index_def digest_of_def)
  next
    case False
    with len have step: "versions_rows False seen (r # rows) out
        = versions_rows False (seen(digest_of r \<mapsto> True)) rows (out @ [snapshot r])"
      by (simp add: index_def snapshot_def digest_of_def)
    have keep: "filter (\<lambda>row. \<not> lookup_bool seen (digest_of row)) (r # rows)
        = r # filter (\<lambda>row. \<not> lookup_bool seen (digest_of row)) rows"
      using False by simp
    show ?thesis
      unfolding step keep Cons.IH [OF rest] flt by simp
  qed
qed

lemma not_list_all_short:
  "(\<not> list_all (\<lambda>row. n \<le> length row) rows) = (\<exists>row\<in>set rows. length row < n)"
  by (auto simp: list_all_iff not_le)

section \<open>The adapters after a successful request\<close>

lemma getWaybackURLs_decoded:
  assumes "http_Get s (waybackQuery domain noSubs) = Inr res"
    and "ioutil_ReadAll res = Inr raw"
    and "json_Unmarshal_rows s raw = (wrapper, e)"
  shows "snd (getWaybackURLs s domain noSubs)
     = (case wayback_rows False (tl wrapper) [] of
          Inl p \<Rightarrow> Panic p | Inr out \<Rightarrow> Return out None)"
  using assms by (simp add: getWaybackURLs_def wayback_rows_skip split: sum.splits)

lemma getVersions_decoded:
  assumes "http_Get s (versionsQuery u) = Inr resp"
    and "json_Decode_rows s resp = (r, None)"
  shows "snd (getVersions s u)
     = (case versions_rows False Map.empty (tl r) [] of
          Inl p \<Rightarrow> Panic p | Inr out \<Rightarrow> Return out None)"
  using assms by (simp add: getVersions_def versions_rows_skip split: sum.splits)

lemma archive_sys_Get:
  "http_Get (archive_sys rows) q = Inr \<lparr>body = json_rows rows, body_err = None\<rparr>"
  by (simp add: archive_sys_def)

lemma archive_sys_Unmarshal:
  "json_Unmarshal_rows (archive_sys rows) (json_rows rows) = (rows, None)"
  by (simp add: archive_sys_def)

lemma archive_sys_Decode:
  "json_Decode_rows (archive_sys rows) \<lparr>body = json_rows rows, body_err = None\<rparr> = (rows, None)"
  by (simp add: archive_sys_def)

section \<open>Facts about timestamps\<close>

lemma digitChar_digit: "isDigitByte c \<Longrightarrow> digitChar (digit c) = c"
  by (simp add: isDigitByte_def digitChar_def digit_def)

lemma digit_less: "isDigitByte c \<Longrightarrow> digit c < 10"
  by (auto simp: isDigitByte_def digit_def)

lemma digit_zero: "isDigitByte c \<Longrightarrow> digit c = 0 \<Longrightarrow> c = CHR ''0''"
proof -
  assume a: "isDigitByte c" "digit c = 0"
  then have "(of_char c :: nat) = 48" by (auto simp: isDigitByte_def digit_def)
  then have "take_bit 8 (of_char c :: nat) = of_char (CHR ''0'')" by simp
  then have "char_of (of_char c :: nat) = CHR ''0''" by (simp only: char_of_eq_iff)
  then show ?thesis by simp
qed

lemma decimal_snoc: "decimal (p @ [c]) = decimal p * 10 + digit c"
  by (simp add: decimal_def)

lemma decimal_zero:
  "list_all isDigitByte p \<Longrightarrow> decimal p = 0 \<Longrightarrow> p = replicate (length p) (CHR ''0'')"
proof (induction p rule: rev_induct)
  case Nil
  show ?case by simp
next
  case (snoc c p)
  then have "decimal p = 0" "digit c = 0" "isDigitByte c" "list_all isDigitByte p"
    by (simp_all add: decimal_snoc)
  with snoc.IH digit_zero have "p = replicate (length p) (CHR ''0'')" "c = CHR ''0''" by auto
  then have "p @ [c] = replicate (length p) (CHR ''0'') @ [CHR ''0'']" by simp
  also have "\<dots> = replicate (length (p @ [c])) (CHR ''0'')"
    by (simp add: replicate_append_same)
  finally show ?case .
qed

lemma appendInt_decimal:
  "list_all isDigitByte p \<Longrightarrow> p \<noteq> [] \<Longrightarrow> appendInt (decimal p) (length p) = p"
proof (induction p rule: rev_induct)
  case Nil
  then show ?case by simp
next
  case (snoc c p)
  then have dc: "isDigitByte c" and dp: "list_all isDigitByte p" by simp_all
  have lt: "digit c < 10" using dc by (rule digit_less)
  show ?case
  proof (cases "decimal p = 0")
    case True
    with lt have "utoa (decimal (p @ [c])) = [c]"
      by (simp add: decimal_snoc utoa.simps [of "digit c"] digitChar_digit [OF dc])
    moreover have "p = replicate (length p) (CHR ''0'')"
      using dp True by (rule decimal_zero)
    ultimately have "appendInt (decimal (p @ [c])) (length (p @ [c])) = replicate (length p) (CHR ''0'') @ [c]"
      by (simp add: appendInt_def)
    with \<open>p = replicate (length p) (CHR ''0'')\<close> show ?thesis by simp
  next
    case False
    then have ge: "\<not> decimal p * 10 + digit c < 10" by simp
    from False have ne: "p \<noteq> []" by (auto simp: decimal_def)
    have dv: "(decimal p * 10 + digit c) div 10 = decimal p" "(decimal p * 10 + digit c) mod 10 = digit c"
      using lt by simp_all
    have "utoa (decimal (p @ [c])) = utoa (decimal p) @ [c]"
      using ge lt
      by (simp add: decimal_snoc utoa.simps [of "decimal p * 10 + digit c"] dv
          digitChar_digit [OF dc])
    then have "appendInt (decimal (p @ [c])) (length (p @ [c])) = appendInt (decimal p) (length p) @ [c]"
      by (simp add: appendInt_def)
    with snoc.IH [OF dp ne] show ?thesis by simp
  qed
qed

lemma atoi_appendInt: "atoi p = Inr y \<Longrightarrow> p \<noteq> [] \<Longrightarrow> appendInt y (length p) = p"
  using appendInt_decimal [of p] by (auto simp: atoi_def split: if_splits)

lemma getnum_two:
  assumes "getnum s fixed = Inr (n, rest)" and "fixed \<or> isDigit rest 0 \<or> isDigit s 1"
  shows "appendInt n 2 = take 2 s \<and> rest = drop 2 s"
proof -
  from assms(1) have d0: "isDigit s 0" by (auto simp: getnum_def split: if_splits)
  have d1: "isDigit s 1"
  proof (rule ccontr)
    assume n1: "\<not> isDigit s 1"
    with assms(1) d0 have "\<not> fixed" "rest = drop 1 s" by (auto simp: getnum_def split: if_splits)
    with assms(2) n1 have "isDigit (drop 1 s) 0" by simp
    then have "isDigit s 1" by (auto simp: isDigit_def)
    with n1 show False by simp
  qed
  from d0 d1 have len: "2 \<le> length s" by (auto simp: isDigit_def)
  then have tk: "take 2 s = [s ! 0, s ! 1]"
    by (cases s; cases "tl s") auto
  from d0 d1 have all: "list_all isDigitByte [s ! 0, s ! 1]" by (simp add: isDigit_def)
  from assms(1) d0 d1 have n: "n = decimal [s ! 0, s ! 1]" and r: "rest = drop 2 s"
    by (auto simp: getnum_def decimal_def)
  from appendInt_decimal [OF all] n tk r show ?thesis by (simp add: numeral_2_eq_2)
qed


lemma getnum_isDigit: "getnum s fixed = Inr r \<Longrightarrow> isDigit s 0"
  by (auto simp: getnum_def split: if_splits)

lemma parse_fields_InrE:
  assumes "parse_fields v = Inr t"
  obtains y mo v2 d v3 h v4 mi v5 sec v6 ns where
    "4 \<le> length v" "atoi (take 4 v) = Inr y" "getnum (drop 4 v) True = Inr (mo, v2)"
    "getnum v2 True = Inr (d, v3)" "getnum v3 False = Inr (h, v4)"
    "getnum v4 True = Inr (mi, v5)" "getnum v5 True = Inr (sec, v6)"
    "t = \<lparr>year = y, month = mo, day = d, hour = h, minute = mi, second = sec, nsec = ns\<rparr>"
  using assms unfolding parse_fields_def
  by (auto split: if_splits sum.splits prod.splits)

lemma Format_parse_fields:
  assumes "parse_fields v = Inr t"
  shows "Format_RFC3339 t = iso8601 v"
proof -
  from assms obtain y mo v2 d v3 h v4 mi v5 sec v6 ns where
    len: "4 \<le> length v" and y: "atoi (take 4 v) = Inr y"
    and mo: "getnum (drop 4 v) True = Inr (mo, v2)"
    and d: "getnum v2 True = Inr (d, v3)" and h: "getnum v3 False = Inr (h, v4)"
    and mi: "getnum v4 True = Inr (mi, v5)" and sec: "getnum v5 True = Inr (sec, v6)"
    and t: "t = \<lparr>year = y, month = mo, day = d, hour = h, minute = mi, second = sec, nsec = ns\<rparr>"
    by (rule parse_fields_InrE)
  from len have "take 4 v \<noteq> []" "length (take 4 v) = 4" by auto
  with atoi_appendInt [OF y] have fy: "appendInt y 4 = take 4 v" by simp
  from getnum_two [OF mo] have fmo: "appendInt mo 2 = take 2 (drop 4 v)" and v2: "v2 = drop 6 v"
    by simp_all
  from getnum_two [OF d] v2 have fd: "appendInt d 2 = take 2 (drop 6 v)" and v3: "v3 = drop 8 v"
    by simp_all
  from getnum_isDigit [OF mi] have "isDigit v4 0" .
  with getnum_two [OF h] v3 have fh: "appendInt h 2 = take 2 (drop 8 v)" and v4: "v4 = drop 10 v"
    by simp_all
  from getnum_two [OF mi] v4 have fmi: "appendInt mi 2 = take 2 (drop 10 v)" and v5: "v5 = drop 12 v"
    by simp_all
  from getnum_two [OF sec] v5 have fs: "appendInt sec 2 = take 2 (drop 12 v)"
    by simp_all
  show ?thesis
    by (simp add: Format_RFC3339_def iso8601_def t fy fmo fd fh fmi fs)
qed

lemma time_Parse_ok:
  "snd (time_Parse ts) = None \<Longrightarrow> Format_RFC3339 (fst (time_Parse ts)) = iso8601 ts"
  by (auto simp: time_Parse_def Format_parse_fields split: sum.splits)

lemma replicate_small:
  "replicate 1 x = [x]" "replicate 2 x = [x, x]" "replicate 3 x = [x, x, x]"
  by (simp_all add: numeral_2_eq_2 numeral_3_eq_3)

lemma Format_zeroTime: "Format_RFC3339 zeroTime = ''0001-01-01T00:00:00Z''"
  by (simp add: Format_RFC3339_def zeroTime_def appendInt_def digitChar_def char_of_eq_iff
      replicate_small utoa.simps)

lemma time_Parse_failed:
  "snd (time_Parse ts) \<noteq> None \<Longrightarrow> Format_RFC3339 (fst (time_Parse ts)) = ''0001-01-01T00:00:00Z''"
  by (auto simp: time_Parse_def Format_zeroTime split: sum.splits)

lemma getnum_digits:
  assumes "list_all isDigitByte ts" and "i + 2 \<le> length ts"
  shows "getnum (drop i ts) fixed = Inr (decimal (take 2 (drop i ts)), drop (i + 2) ts)"
proof -
  from assms have d: "isDigitByte (ts ! i)" "isDigitByte (ts ! Suc i)"
    by (simp_all add: list_all_length)
  from assms(2) have tk: "take 2 (drop i ts) = [ts ! i, ts ! Suc i]"
    by (simp add: numeral_2_eq_2 take_Suc_conv_app_nth)
  from assms(2) have lt: "Suc 0 < length ts - i" "0 < length ts - i" by arith+
  from assms(2) d lt show ?thesis
    unfolding tk by (simp add: getnum_def isDigit_def decimal_def add.commute)
qed

lemma archive_timestamp_parses:
  assumes "archive_timestamp ts"
  shows "snd (time_Parse ts) = None"
proof -
  from assms have len: "length ts = 14" and all: "list_all isDigitByte ts"
    by (simp_all add: archive_timestamp_def)
  from len all have d0: "isDigit ts 0" by (simp add: isDigit_def list_all_length)
  from all have y: "atoi (take 4 ts) = Inr (decimal (take 4 ts))"
    by (simp add: atoi_def list_all_length)
  have g: "getnum (drop 4 ts) True = Inr (decimal (take 2 (drop 4 ts)), drop 6 ts)"
    "getnum (drop 6 ts) True = Inr (decimal (take 2 (drop 6 ts)), drop 8 ts)"
    "getnum (drop 8 ts) False = Inr (decimal (take 2 (drop 8 ts)), drop 10 ts)"
    "getnum (drop 10 ts) True = Inr (decimal (take 2 (drop 10 ts)), drop 12 ts)"
    "getnum (drop 12 ts) True = Inr (decimal (take 2 (drop 12 ts)), drop 14 ts)"
    using getnum_digits [OF all, of 4] getnum_digits [OF all, of 6] getnum_digits [OF all, of 8]
      getnum_digits [OF all, of 10] getnum_digits [OF all, of 12] len by simp_all
  from len have e: "drop 14 ts = []" by simp
  have "\<exists>t. parse_fields ts = Inr t"
    using assms d0 len
    by (simp add: parse_fields_def y g e fractional_def archive_timestamp_def not_le not_less)
  then show ?thesis by (auto simp: time_Parse_def)
qed

lemmas eval_time = Format_RFC3339_def zeroTime_def appendInt_def digitChar_def char_of_eq_iff
  time_Parse_def parse_fields_def getnum_def isDigit_def isDigitByte_def digit_def atoi_def
  decimal_def fractional_def parseNanoseconds_def commaOrPeriod_def daysIn_def isLeap_def
  replicate_small utoa.simps

section \<open>Facts about the consumer loop\<close>

lemma Sprintf_dated: "Sprintf ''%s %s\<newline>'' [a, b] = a @ '' '' @ b @ ''\<newline>''"
  by simp

lemma Sprintf_warning:
  "Sprintf ''failed to parse date [%s] for URL [%s]\<newline>'' [a, b]
     = ''failed to parse date ['' @ a @ ''] for URL ['' @ b @ '']\<newline>''"
  by simp

lemma consume_unseen:
  "seen (url w) = None \<Longrightarrow>
   consume dates seen (w # ws) out =
     consume dates (seen(url w \<mapsto> True)) ws
       (if dates \<and> snd (time_Parse (date w)) \<noteq> None
        then out\<lparr>stderr := stderr out @ [warning_line w],
                 stdout := stdout out @ [output_line dates w]\<rparr>
        else out\<lparr>stdout := stdout out @ [output_line dates w]\<rparr>)"
  by (cases "time_Parse (date w)") (simp add: output_line_def warning_line_def)

lemma consume_seen:
  "seen (url w) \<noteq> None \<Longrightarrow> consume dates seen (w # ws) out = consume dates seen ws out"
  by simp

lemma filter_seen_update:
  "filter (\<lambda>v. (seen(k \<mapsto> True)) (url v) = None) ws
     = filter (\<lambda>v. url v \<noteq> k) (filter (\<lambda>v. seen (url v) = None) ws)"
  by (induction ws) auto


lemma consume_stdout:
  "stdout (consume dates seen ws out)
     = stdout out @ map (output_line dates) (first_by url (filter (\<lambda>w. seen (url w) = None) ws))"
proof (induction ws arbitrary: seen out)
  case Nil
  show ?case by simp
next
  case (Cons w ws)
  show ?case
  proof (cases "seen (url w) = None")
    case True
    have "stdout (consume dates seen (w # ws) out)
        = (stdout out @ [output_line dates w])
          @ map (output_line dates)
              (first_by url (filter (\<lambda>v. (seen(url w \<mapsto> True)) (url v) = None) ws))"
      by (simp only: consume_unseen [of seen w, OF True] Cons.IH) simp
    then show ?thesis
      unfolding filter_seen_update using True by (simp del: consume.simps)
  next
    case False
    have "stdout (consume dates seen (w # ws) out)
        = stdout out @ map (output_line dates)
              (first_by url (filter (\<lambda>v. seen (url v) = None) ws))"
      by (simp only: consume_seen [of seen w, OF False] Cons.IH)
    then show ?thesis by (simp add: False del: consume.simps)
  qed
qed

lemma consume_stderr:
  "stderr (consume dates seen ws out)
     = stderr out @ map warning_line
         (filter (\<lambda>w. dates \<and> snd (time_Parse (date w)) \<noteq> None)
            (first_by url (filter (\<lambda>w. seen (url w) = None) ws)))"
proof (induction ws arbitrary: seen out)
  case Nil
  show ?case by simp
next
  case (Cons w ws)
  show ?case
  proof (cases "seen (url w) = None")
    case True
    have "stderr (consume dates seen (w # ws) out)
        = (stderr out @ (if dates \<and> snd (time_Parse (date w)) \<noteq> None
                         then [warning_line w] else []))
          @ map warning_line
              (filter (\<lambda>w. dates \<and> snd (time_Parse (date w)) \<noteq> None)
                 (first_by url (filter (\<lambda>v. (seen(url w \<mapsto> True)) (url v) = None) ws)))"
      by (simp only: consume_unseen [of seen w, OF True] Cons.IH) simp
    then show ?thesis
      unfolding filter_seen_update using True by (simp del: consume.simps)
  next
    case False
    have "stderr (consume dates seen (w # ws) out)
        = stderr out @ map warning_line
            (filter (\<lambda>w. dates \<and> snd (time_Parse (date w)) \<noteq> None)
               (first_by url (filter (\<lambda>v. seen (url v) = None) ws)))"
      by (simp only: consume_seen [of seen w, OF False] Cons.IH)
    then show ?thesis by (simp add: False del: consume.simps)
  qed
qed

lemma for_domains_stdout:
  "stdout (for_domains dates streams out)
     = stdout out @ concat (map (\<lambda>ws. map (output_line dates) (first_by url ws)) streams)"
proof (induction streams arbitrary: out)
  case Nil
  show ?case by simp
next
  case (Cons ws streams)
  show ?case
    unfolding for_domains.simps Cons.IH
    using consume_stdout [of dates Map.empty ws out] by simp
qed

lemma count_list_lines:
  "count_list (map (\<lambda>w. url w @ nl) xs) (u @ nl) = count_list (map url xs) u"
  by (induction xs) auto

lemma count_list_distinct: "distinct ys \<Longrightarrow> count_list ys u = (if u \<in> set ys then 1 else 0)"
  by (induction ys) auto

lemma count_list_concat:
  "count_list (concat xss) x = sum_list (map (\<lambda>xs. count_list xs x) xss)"
  by (induction xss) auto

lemma sum_list_indicator:
  "sum_list (map (\<lambda>x. if P x then 1 else 0) xs) = length (filter P xs)"
  by (induction xs) auto

section \<open>Facts about the dispatcher and the requests\<close>

lemma send_records_filter:
  "send_records s noSubs domain resp
     = filter (\<lambda>r. \<not> (noSubs \<and> isSubdomain s (url r) domain)) resp"
  by (induction resp) auto

lemmas eval_host = offline_sys_def example_Parse_def strings_ToLower_def Hostname_def
  validOptionalPort_def isDigitByte_def lowerByte_def char_of_eq_iff

lemma getWaybackURLs_requests:
  "fst (getWaybackURLs s domain noSubs) = [waybackQuery domain noSubs]"
  by (simp add: getWaybackURLs_def Let_def split: sum.splits prod.splits)

lemma getCommonCrawlURLs_requests:
  "fst (getCommonCrawlURLs s domain noSubs) = [commonCrawlQuery domain noSubs]"
  by (simp add: getCommonCrawlURLs_def Let_def split: sum.splits)

lemma adapter_task_example:
  "snd (getWaybackURLs (archive_sys [cdx_header, capture_a, capture_b]) ''example.com'' False)
     = Return [\<lparr>date = ''20200101000000'', url = ''http://example.com/''\<rparr>,
               \<lparr>date = ''20200102030405'', url = ''http://example.com/about''\<rparr>] None"
proof -
  let ?rows = "[cdx_header, capture_a, capture_b]"
  have ok: "list_all (\<lambda>row. 3 \<le> length row) (tl ?rows)"
    by (simp add: capture_a_def capture_b_def)
  have "snd (getWaybackURLs (archive_sys ?rows) ''example.com'' False)
      = (case wayback_rows False (tl ?rows) [] of
           Inl p \<Rightarrow> Panic p | Inr out \<Rightarrow> Return out None)"
    by (rule getWaybackURLs_decoded [OF archive_sys_Get _ archive_sys_Unmarshal])
      (simp add: ioutil_ReadAll_def)
  then show ?thesis
    unfolding wayback_rows_ok [OF ok] by (simp add: capture_a_def capture_b_def)
qed

section \<open>Claims\<close>

text \<open>
  Claim C10. Positional row access is unguarded. Once the archive index has answered and
  the body has been read and handed to the decoder, \<^verbatim>\<open>getWaybackURLs\<close> panics exactly
  when some row after the first has fewer than three fields; once the version listing
  has been decoded without error, \<^verbatim>\<open>getVersions\<close> panics exactly when some row after
  the first has fewer than six fields. A panic is neither an error return nor a skipped
  row; without such a row both functions return.
\<close>

theorem unguarded_row_access:
  "(http_Get s (waybackQuery domain noSubs) = Inr res \<and> ioutil_ReadAll res = Inr raw
      \<and> json_Unmarshal_rows s raw = (wrapper, e)
    \<longrightarrow> ((\<exists>p. snd (getWaybackURLs s domain noSubs) = Panic p)
          \<longleftrightarrow> (\<exists>row\<in>set (tl wrapper). length row < 3)))
   \<and> (http_Get s (versionsQuery u) = Inr resp \<and> json_Decode_rows s resp = (r, None)
    \<longrightarrow> ((\<exists>p. snd (getVersions s u) = Panic p)
          \<longleftrightarrow> (\<exists>row\<in>set (tl r). length row < 6)))"
proof (intro conjI impI)
  assume a: "http_Get s (waybackQuery domain noSubs) = Inr res \<and> ioutil_ReadAll res = Inr raw
      \<and> json_Unmarshal_rows s raw = (wrapper, e)"
  then have eq: "snd (getWaybackURLs s domain noSubs)
     = (case wayback_rows False (tl wrapper) [] of
          Inl p \<Rightarrow> Panic p | Inr out \<Rightarrow> Return out None)"
    by (intro getWaybackURLs_decoded) auto
  show "(\<exists>p. snd (getWaybackURLs s domain noSubs) = Panic p)
          \<longleftrightarrow> (\<exists>row\<in>set (tl wrapper). length row < 3)"
  proof (cases "list_all (\<lambda>row. 3 \<le> length row) (tl wrapper)")
    case True
    from wayback_rows_ok [OF True, of "[]"] eq True show ?thesis
      by (simp add: not_list_all_short [symmetric])
  next
    case False
    from wayback_rows_panic [OF False, of "[]"] eq False show ?thesis
      by (auto simp: not_list_all_short [symmetric])
  qed
next
  assume a: "http_Get s (versionsQuery u) = Inr resp \<and> json_Decode_rows s resp = (r, None)"
  then have eq: "snd (getVersions s u)
     = (case versions_rows False Map.empty (tl r) [] of
          Inl p \<Rightarrow> Panic p | Inr out \<Rightarrow> Return out None)"
    by (intro getVersions_decoded) auto
  show "(\<exists>p. snd (getVersions s u) = Panic p) \<longleftrightarrow> (\<exists>row\<in>set (tl r). length row < 6)"
  proof (cases "list_all (\<lambda>row. 6 \<le> length row) (tl r)")
    case True
    from versions_rows_ok [OF True, of Map.empty "[]"] eq True show ?thesis
      by (simp add: not_list_all_short [symmetric])
  next
    case False
    from versions_rows_panic [OF False, of Map.empty "[]"] eq False show ?thesis
      by (auto simp: not_list_all_short [symmetric])
  qed
qed

text \<open>
  An archive index whose only row after the header has two fields: both functions
  panic.
\<close>

theorem unguarded_row_access_witness:
  "(\<exists>p. snd (getWaybackURLs (archive_sys [cdx_header, [''com,example)/'', ''20200101000000'']])
            ''example.com'' False) = Panic p)
   \<and> (\<exists>p. snd (getVersions (archive_sys [cdx_header, [''com,example)/'', ''20200101000000'']])
            ''http://example.com/'') = Panic p)"
proof -
  let ?rows = "[cdx_header, [''com,example)/'', ''20200101000000'']]"
  let ?res = "\<lparr>body = json_rows ?rows, body_err = None\<rparr>"
  have g: "http_Get (archive_sys ?rows) (waybackQuery ''example.com'' False) = Inr ?res
      \<and> ioutil_ReadAll ?res = Inr (json_rows ?rows)
      \<and> json_Unmarshal_rows (archive_sys ?rows) (json_rows ?rows) = (?rows, None)"
    by (simp add: archive_sys_Get archive_sys_Unmarshal ioutil_ReadAll_def)
  have v: "http_Get (archive_sys ?rows) (versionsQuery ''http://example.com/'') = Inr ?res
      \<and> json_Decode_rows (archive_sys ?rows) ?res = (?rows, None)"
    by (simp add: archive_sys_Get archive_sys_Decode)
  from unguarded_row_access
    [of "archive_sys ?rows" "''example.com''" False ?res "json_rows ?rows" ?rows None
        "''http://example.com/''" ?res ?rows] g v
  show ?thesis by simp
qed

text \<open>
  Claim C5, as stated, fails where a row after the header has fewer than three fields:
  the row yields no record, the call panics and returns nothing. Here the row has one
  field.
\<close>

theorem wayback_short_row_counterexample:
  "snd (getWaybackURLs (archive_sys [cdx_header, [''com,example)/'']]) ''example.com'' False)
     = Panic (IndexOutOfRange 1 1)"
  by (simp add: getWaybackURLs_def archive_sys_Get archive_sys_Unmarshal ioutil_ReadAll_def
      index_def)

text \<open>
  Claim C5, amended. When the archive index has answered, the body has been read and
  decoded into a first row followed by rows of at least three fields each,
  \<^verbatim>\<open>getWaybackURLs\<close> returns one record per row after the first, in the order of the
  response, with the timestamp from position 1 and the URL from position 2, and a nil
  error. The first row is dropped whatever it holds (\<open>header\<close> is arbitrary), and so is
  the decoder's error \<open>e\<close>.
\<close>

theorem wayback_rows_to_records:
  assumes "http_Get s (waybackQuery domain noSubs) = Inr res"
    and "ioutil_ReadAll res = Inr raw"
    and "json_Unmarshal_rows s raw = (header # rows, e)"
    and "list_all (\<lambda>row. 3 \<le> length row) rows"
  shows "snd (getWaybackURLs s domain noSubs)
     = Return (map (\<lambda>row. \<lparr>date = row ! 1, url = row ! 2\<rparr>) rows) None"
  using getWaybackURLs_decoded [OF assms(1-3)] wayback_rows_ok [OF assms(4), of "[]"]
  by simp

text \<open>The header and two captures: two records, the header gives none.\<close>

theorem wayback_rows_to_records_witness:
  "snd (getWaybackURLs (archive_sys [cdx_header, capture_a, capture_b]) ''example.com'' False)
     = Return [\<lparr>date = ''20200101000000'', url = ''http://example.com/''\<rparr>,
               \<lparr>date = ''20200102030405'', url = ''http://example.com/about''\<rparr>] None"
proof -
  let ?rows = "[cdx_header, capture_a, capture_b]"
  let ?res = "\<lparr>body = json_rows ?rows, body_err = None\<rparr>"
  have "http_Get (archive_sys ?rows) (waybackQuery ''example.com'' False) = Inr ?res"
    by (simp add: archive_sys_Get)
  moreover have "ioutil_ReadAll ?res = Inr (json_rows ?rows)"
    by (simp add: ioutil_ReadAll_def)
  moreover have "json_Unmarshal_rows (archive_sys ?rows) (json_rows ?rows)
      = (cdx_header # [capture_a, capture_b], None)"
    by (simp add: archive_sys_Unmarshal)
  moreover have "list_all (\<lambda>row. 3 \<le> length row) [capture_a, capture_b]"
    by (simp add: capture_a_def capture_b_def)
  ultimately have "snd (getWaybackURLs (archive_sys ?rows) ''example.com'' False)
     = Return (map (\<lambda>row. \<lparr>date = row ! 1, url = row ! 2\<rparr>) [capture_a, capture_b]) None"
    by (rule wayback_rows_to_records)
  then show ?thesis by (simp add: capture_a_def capture_b_def)
qed

text \<open>
  Claim C7, as stated, fails where a row after the header has fewer than six fields:
  the version lister panics at column 5 and returns nothing. Here the row has three
  fields.
\<close>

theorem versions_short_row_counterexample:
  "snd (getVersions
          (archive_sys [cdx_header, [''com,example)/'', ''20200101000000'', ''http://example.com/'']])
          ''http://example.com/'')
     = Panic (IndexOutOfRange 5 3)"
  by (simp add: getVersions_def archive_sys_Get archive_sys_Decode index_def)

text \<open>
  Claim C7, amended. When the version listing has been decoded without error into a
  first row followed by rows of at least six fields each, \<^verbatim>\<open>getVersions\<close> returns, with
  a nil error, the snapshot URLs \<^verbatim>\<open>https://web.archive.org/web/<column 1>if_/<column 2>\<close>
  of the rows that are the first with their digest (column 5): these rows have pairwise
  different digests, cover every digest of the response, stand in the order of the
  response, and each is the first row of the response with its digest. Two rows with one
  digest give exactly one snapshot URL, that of the first.
\<close>

theorem versions_first_per_digest:
  assumes "http_Get s (versionsQuery u) = Inr resp"
    and "json_Decode_rows s resp = (header # rows, None)"
    and "list_all (\<lambda>row. 6 \<le> length row) rows"
  shows "snd (getVersions s u) = Return (map snapshot (first_by digest_of rows)) None
    \<and> distinct (map digest_of (first_by digest_of rows))
    \<and> digest_of ` set (first_by digest_of rows) = digest_of ` set rows
    \<and> subseq (first_by digest_of rows) rows
    \<and> (\<forall>row\<in>set (first_by digest_of rows).
          find (\<lambda>r. digest_of r = digest_of row) rows = Some row)
    \<and> (\<forall>r1 r2. rows = [r1, r2] \<and> digest_of r1 = digest_of r2
          \<longrightarrow> snd (getVersions s u) = Return [snapshot r1] None)"
proof -
  have ret: "snd (getVersions s u) = Return (map snapshot (first_by digest_of rows)) None"
    using getVersions_decoded [OF assms(1,2)] versions_rows_ok [OF assms(3), of Map.empty "[]"]
    by (simp add: lookup_bool_def)
  have two: "\<forall>r1 r2. rows = [r1, r2] \<and> digest_of r1 = digest_of r2
          \<longrightarrow> snd (getVersions s u) = Return [snapshot r1] None"
    using ret by auto
  show ?thesis
    using ret two first_by_distinct [of digest_of rows] first_by_keys [of digest_of rows]
      first_by_subseq [of digest_of rows] first_by_find [of _ digest_of rows]
    by blast
qed

text \<open>
  Two captures with one digest and different timestamps, with and without a third
  capture of another digest.
\<close>

theorem versions_first_per_digest_witness:
  "snd (getVersions (archive_sys [cdx_header, capture_a, capture_a_again, capture_b])
          ''http://example.com/'')
     = Return [''https://web.archive.org/web/20200101000000if_/http://example.com/'',
               ''https://web.archive.org/web/20200102030405if_/http://example.com/about''] None
   \<and> snd (getVersions (archive_sys [cdx_header, capture_a, capture_a_again])
          ''http://example.com/'')
     = Return [''https://web.archive.org/web/20200101000000if_/http://example.com/''] None"
proof -
  let ?rows = "[cdx_header, capture_a, capture_a_again, capture_b]"
  let ?res = "\<lparr>body = json_rows ?rows, body_err = None\<rparr>"
  let ?rows2 = "[cdx_header, capture_a, capture_a_again]"
  let ?res2 = "\<lparr>body = json_rows ?rows2, body_err = None\<rparr>"
  have all: "list_all (\<lambda>row. 6 \<le> length row) [capture_a, capture_a_again, capture_b]"
    "list_all (\<lambda>row. 6 \<le> length row) [capture_a, capture_a_again]"
    by (simp_all add: capture_a_def capture_a_again_def capture_b_def)
  have same: "digest_of capture_a = digest_of capture_a_again"
    by (simp add: digest_of_def capture_a_def capture_a_again_def)
  have other: "digest_of capture_b \<noteq> digest_of capture_a"
    by (simp add: digest_of_def capture_a_def capture_b_def)
  have one: "snd (getVersions (archive_sys ?rows) ''http://example.com/'')
      = Return (map snapshot (first_by digest_of [capture_a, capture_a_again, capture_b])) None"
    using versions_first_per_digest [of "archive_sys ?rows" "''http://example.com/''" ?res
        cdx_header "[capture_a, capture_a_again, capture_b]"] all
    by (simp add: archive_sys_Get archive_sys_Decode)
  have two: "snd (getVersions (archive_sys ?rows2) ''http://example.com/'')
      = Return [snapshot capture_a] None"
    using versions_first_per_digest [of "archive_sys ?rows2" "''http://example.com/''" ?res2
        cdx_header "[capture_a, capture_a_again]"] all same
    by (simp add: archive_sys_Get archive_sys_Decode)
  have snaps: "snapshot capture_a = ''https://web.archive.org/web/20200101000000if_/http://example.com/''"
    "snapshot capture_b = ''https://web.archive.org/web/20200102030405if_/http://example.com/about''"
    by (simp_all add: snapshot_def capture_a_def capture_b_def)
  from one two same other show ?thesis by (simp add: snaps)
qed

text \<open>
  Claim C2. Whatever records the channel of one target delivers, and in whatever order,
  the loop writes one line for each record that is the first with its URL, in the order
  of arrival, and nothing for any other record: the lines written belong to pairwise
  different URLs, every URL of the stream has its line, and the record behind a line is
  the first record of the stream with that URL, so its timestamp is the one printed in
  dated mode. The diagnostic stream gets a warning for a written record whose date does
  not parse in dated mode, and nothing else, so a dropped record leaves no trace.
\<close>

theorem dedup_first_seen:
  "stdout (consume dates Map.empty ws out)
     = stdout out @ map (output_line dates) (first_by url ws)
   \<and> stderr (consume dates Map.empty ws out)
     = stderr out @ map warning_line
         (filter (\<lambda>w. dates \<and> snd (time_Parse (date w)) \<noteq> None) (first_by url ws))
   \<and> distinct (map url (first_by url ws))
   \<and> url ` set (first_by url ws) = url ` set ws
   \<and> subseq (first_by url ws) ws
   \<and> (\<forall>w\<in>set (first_by url ws). find (\<lambda>v. url v = url w) ws = Some w)"
  using consume_stdout [of dates Map.empty ws out] consume_stderr [of dates Map.empty ws out]
    first_by_distinct [of url ws]
    first_by_keys [of url ws] first_by_subseq [of url ws] first_by_find [of _ url ws]
  by simp

text \<open>
  Two adapters return the same URL with different timestamps, a third record has
  another URL: two lines, the first timestamp wins.
\<close>

theorem dedup_first_seen_witness:
  "stdout (consume True Map.empty
             [\<lparr>date = ''20200101000000'', url = ''http://example.com/a''\<rparr>,
              \<lparr>date = ''20210615120000'', url = ''http://example.com/a''\<rparr>,
              \<lparr>date = ''20200102030405'', url = ''http://example.com/b''\<rparr>]
             \<lparr>stdout = [], stderr = []\<rparr>)
     = [''2020-01-01T00:00:00Z http://example.com/a\<newline>'',
        ''2020-01-02T03:04:05Z http://example.com/b\<newline>'']
   \<and> find (\<lambda>v. url v = ''http://example.com/a'')
         [\<lparr>date = ''20200101000000'', url = ''http://example.com/a''\<rparr>,
          \<lparr>date = ''20210615120000'', url = ''http://example.com/a''\<rparr>,
          \<lparr>date = ''20200102030405'', url = ''http://example.com/b''\<rparr>]
     = Some \<lparr>date = ''20200101000000'', url = ''http://example.com/a''\<rparr>"
proof -
  let ?a = "\<lparr>date = ''20200101000000'', url = ''http://example.com/a''\<rparr>"
  let ?a' = "\<lparr>date = ''20210615120000'', url = ''http://example.com/a''\<rparr>"
  let ?b = "\<lparr>date = ''20200102030405'', url = ''http://example.com/b''\<rparr>"
  have fb: "first_by url [?a, ?a', ?b] = [?a, ?b]" by simp
  have la: "output_line True ?a = ''2020-01-01T00:00:00Z http://example.com/a\<newline>''"
    by (simp add: output_line_def eval_time)
  have lb: "output_line True ?b = ''2020-01-02T03:04:05Z http://example.com/b\<newline>''"
    by (simp add: output_line_def eval_time)
  from dedup_first_seen [of True "[?a, ?a', ?b]" "\<lparr>stdout = [], stderr = []\<rparr>"]
  have "stdout (consume True Map.empty [?a, ?a', ?b] \<lparr>stdout = [], stderr = []\<rparr>)
      = map (output_line True) (first_by url [?a, ?a', ?b])
    \<and> (\<forall>w\<in>set (first_by url [?a, ?a', ?b]).
          find (\<lambda>v. url v = url w) [?a, ?a', ?b] = Some w)"
    by simp
  then show ?thesis unfolding fb by (simp add: la lb)
qed

text \<open>
  Claim C9. The set of URLs already written is made anew for each target: what the loop
  over the targets writes is, target after target, what the consumer loop writes from
  an empty set. So in plain mode the line of a URL is written once for every target
  whose channel delivers that URL, however many targets came before.
\<close>

theorem seen_is_per_target:
  "stdout (for_domains dates streams out)
     = stdout out @ concat (map (\<lambda>ws. map (output_line dates) (first_by url ws)) streams)
   \<and> count_list (stdout (for_domains False streams \<lparr>stdout = [], stderr = []\<rparr>)) (u @ ''\<newline>'')
     = length (filter (\<lambda>ws. u \<in> url ` set ws) streams)"
proof -
  have plain: "output_line False = (\<lambda>w. url w @ ''\<newline>'')"
    by (simp add: output_line_def fun_eq_iff)
  have one: "count_list (map (\<lambda>w. url w @ ''\<newline>'') (first_by url ws)) (u @ ''\<newline>'')
      = (if u \<in> url ` set ws then 1 else 0)" for ws :: "wurl list"
    unfolding count_list_lines
    using count_list_distinct [OF first_by_distinct [of url ws], of u] first_by_keys [of url ws]
    by simp
  show ?thesis
    by (simp add: for_domains_stdout plain count_list_concat comp_def one sum_list_indicator)
qed

text \<open>
  Two targets: the channel of the first delivers a URL twice, that of the second delivers
  it again. The line is written once for each target.
\<close>

theorem seen_is_per_target_witness:
  "stdout (for_domains False
     [[\<lparr>date = ''20200101000000'', url = ''http://example.com/''\<rparr>,
       \<lparr>date = ''20210615120000'', url = ''http://example.com/''\<rparr>],
      [\<lparr>date = [], url = ''http://example.com/''\<rparr>]]
     \<lparr>stdout = [], stderr = []\<rparr>)
   = [''http://example.com/\<newline>'', ''http://example.com/\<newline>'']"
  using seen_is_per_target [of False
     "[[\<lparr>date = ''20200101000000'', url = ''http://example.com/''\<rparr>,
        \<lparr>date = ''20210615120000'', url = ''http://example.com/''\<rparr>],
       [\<lparr>date = [], url = ''http://example.com/''\<rparr>]]" "\<lparr>stdout = [], stderr = []\<rparr>"]
  by (simp add: output_line_def)

text \<open>
  Claim C6. In dated mode a record with a URL not seen before, whose timestamp parses,
  is written as the timestamp in the form \<^verbatim>\<open>YYYY-MM-DDTHH:MM:SSZ\<close>, a space and the
  URL, and nothing goes to the diagnostic stream; every well-formed 14-digit timestamp
  parses. A record whose timestamp does not parse is written all the same, with the
  zero date \<^verbatim>\<open>0001-01-01T00:00:00Z\<close>, after a warning on the diagnostic stream; in both
  cases the loop goes on with the rest of the stream. The timestamp
  \<^verbatim>\<open>20200101000000\<close> with the URL \<^verbatim>\<open>http://x.test/\<close> gives the line
  \<^verbatim>\<open>2020-01-01T00:00:00Z http://x.test/\<close>.
\<close>

theorem dated_output:
  "(seen (url w) = None \<and> snd (time_Parse (date w)) = None \<longrightarrow>
      consume True seen (w # ws) out
        = consume True (seen(url w \<mapsto> True)) ws
            (out\<lparr>stdout := stdout out @ [iso8601 (date w) @ '' '' @ url w @ ''\<newline>'']\<rparr>))
   \<and> (seen (url w) = None \<and> snd (time_Parse (date w)) \<noteq> None \<longrightarrow>
      consume True seen (w # ws) out
        = consume True (seen(url w \<mapsto> True)) ws
            (out\<lparr>stderr := stderr out @
                    [''failed to parse date ['' @ date w @ ''] for URL ['' @ url w @ '']\<newline>''],
                 stdout := stdout out @ [''0001-01-01T00:00:00Z '' @ url w @ ''\<newline>'']\<rparr>))
   \<and> (archive_timestamp ts \<longrightarrow> snd (time_Parse ts) = None)
   \<and> consume True Map.empty [\<lparr>date = ''20200101000000'', url = ''http://x.test/''\<rparr>]
         \<lparr>stdout = [], stderr = []\<rparr>
       = \<lparr>stdout = [''2020-01-01T00:00:00Z http://x.test/\<newline>''], stderr = []\<rparr>"
proof (intro conjI impI)
  assume a: "seen (url w) = None \<and> snd (time_Parse (date w)) = None"
  then have u: "seen (url w) = None" and f: "snd (time_Parse (date w)) = None"
    by simp_all
  show "consume True seen (w # ws) out
        = consume True (seen(url w \<mapsto> True)) ws
            (out\<lparr>stdout := stdout out @ [iso8601 (date w) @ '' '' @ url w @ ''\<newline>'']\<rparr>)"
    unfolding consume_unseen [of seen w, OF u] output_line_def time_Parse_ok [OF f]
    using f by simp
next
  assume a: "seen (url w) = None \<and> snd (time_Parse (date w)) \<noteq> None"
  then have u: "seen (url w) = None" and f: "snd (time_Parse (date w)) \<noteq> None"
    by simp_all
  show "consume True seen (w # ws) out
        = consume True (seen(url w \<mapsto> True)) ws
            (out\<lparr>stderr := stderr out @
                    [''failed to parse date ['' @ date w @ ''] for URL ['' @ url w @ '']\<newline>''],
                 stdout := stdout out @ [''0001-01-01T00:00:00Z '' @ url w @ ''\<newline>'']\<rparr>)"
    unfolding consume_unseen [of seen w, OF u] output_line_def time_Parse_failed [OF f]
      warning_line_def
    using f by simp
next
  assume "archive_timestamp ts"
  then show "snd (time_Parse ts) = None" by (rule archive_timestamp_parses)
next
  show "consume True Map.empty [\<lparr>date = ''20200101000000'', url = ''http://x.test/''\<rparr>]
         \<lparr>stdout = [], stderr = []\<rparr>
       = \<lparr>stdout = [''2020-01-01T00:00:00Z http://x.test/\<newline>''], stderr = []\<rparr>"
    by (simp add: eval_time)
qed

text \<open>
  A record of the archive index followed by one without timestamp, as the reputation
  index gives them.
\<close>

theorem dated_output_witness:
  "consume True Map.empty
     [\<lparr>date = ''20200101000000'', url = ''http://x.test/''\<rparr>,
      \<lparr>date = [], url = ''http://x.test/listed''\<rparr>]
     \<lparr>stdout = [], stderr = []\<rparr>
   = \<lparr>stdout = [''2020-01-01T00:00:00Z http://x.test/\<newline>'',
                 ''0001-01-01T00:00:00Z http://x.test/listed\<newline>''],
      stderr = [''failed to parse date [] for URL [http://x.test/listed]\<newline>'']\<rparr>"
proof -
  let ?w1 = "\<lparr>date = ''20200101000000'', url = ''http://x.test/''\<rparr>"
  let ?w2 = "\<lparr>date = [], url = ''http://x.test/listed''\<rparr>"
  let ?o0 = "\<lparr>stdout = [], stderr = []\<rparr>"
  let ?o1 = "\<lparr>stdout = [''2020-01-01T00:00:00Z http://x.test/\<newline>''], stderr = []\<rparr>"
  let ?s1 = "[''http://x.test/'' \<mapsto> True]"
  have ts: "archive_timestamp ''20200101000000''"
    by (simp add: archive_timestamp_def isDigitByte_def decimal_def digit_def daysIn_def)
  note thm1 = dated_output [of Map.empty ?w1 "[?w2]" ?o0 "''20200101000000''"]
  from thm1 ts have ok: "snd (time_Parse ''20200101000000'') = None" by blast
  have bad: "snd (time_Parse []) \<noteq> None" by (simp add: eval_time)
  from thm1 ok have step1: "consume True Map.empty [?w1, ?w2] ?o0 = consume True ?s1 [?w2] ?o1"
    by (simp add: iso8601_def)
  from dated_output [of ?s1 ?w2 "[]" ?o1 "''20200101000000''"] bad
  have step2: "consume True ?s1 [?w2] ?o1
      = \<lparr>stdout = [''2020-01-01T00:00:00Z http://x.test/\<newline>'',
                    ''0001-01-01T00:00:00Z http://x.test/listed\<newline>''],
         stderr = [''failed to parse date [] for URL [http://x.test/listed]\<newline>'']\<rparr>"
    by simp
  from step1 step2 show ?thesis by simp
qed

text \<open>
  Claim C3. With \<^verbatim>\<open>noSubs\<close> false the goroutine sends every record the adapter
  returned. With \<^verbatim>\<open>noSubs\<close> true a record whose URL does not parse is sent; a record
  whose URL parses is sent when the lower-cased host name equals the lower-cased target,
  and is dropped, without touching the records after it, when they differ.
\<close>

theorem subdomain_filter:
  "send_records s False domain resp = resp
   \<and> (snd (fetch s domain False) = Return resp None \<longrightarrow>
        adapter_task s fetch domain False = Inr resp)
   \<and> (url_Parse s (url r) = Inl e \<longrightarrow>
        send_records s True domain (r # resp) = r # send_records s True domain resp)
   \<and> (url_Parse s (url r) = Inr u
        \<and> strings_ToLower s (Hostname u) = strings_ToLower s domain \<longrightarrow>
        send_records s True domain (r # resp) = r # send_records s True domain resp)
   \<and> (url_Parse s (url r) = Inr u
        \<and> strings_ToLower s (Hostname u) \<noteq> strings_ToLower s domain \<longrightarrow>
        send_records s True domain (r # resp) = send_records s True domain resp)"
  by (simp add: send_records_filter adapter_task_def isSubdomain_def)

text \<open>
  Target \<^verbatim>\<open>example.com\<close>: the record of a subdomain is dropped, the record whose host
  is the target in capitals (and with a port) is kept, and so is the record whose URL
  does not parse. Without the flag the goroutine of the archive adapter sends both
  records the adapter returns.
\<close>

theorem subdomain_filter_witness:
  "send_records offline_sys True ''example.com''
     [\<lparr>date = ''20200101000000'', url = ''http://sub.example.com/login''\<rparr>,
      \<lparr>date = ''20200102030405'', url = ''http://EXAMPLE.com:8080/''\<rparr>,
      \<lparr>date = [], url = ''http://[::1''\<rparr>]
   = [\<lparr>date = ''20200102030405'', url = ''http://EXAMPLE.com:8080/''\<rparr>,
      \<lparr>date = [], url = ''http://[::1''\<rparr>]
   \<and> send_records offline_sys False ''example.com''
     [\<lparr>date = ''20200101000000'', url = ''http://sub.example.com/login''\<rparr>,
      \<lparr>date = ''20200102030405'', url = ''http://EXAMPLE.com:8080/''\<rparr>,
      \<lparr>date = [], url = ''http://[::1''\<rparr>]
   = [\<lparr>date = ''20200101000000'', url = ''http://sub.example.com/login''\<rparr>,
      \<lparr>date = ''20200102030405'', url = ''http://EXAMPLE.com:8080/''\<rparr>,
      \<lparr>date = [], url = ''http://[::1''\<rparr>]
   \<and> adapter_task (archive_sys [cdx_header, capture_a, capture_b]) getWaybackURLs
       ''example.com'' False
   = Inr [\<lparr>date = ''20200101000000'', url = ''http://example.com/''\<rparr>,
          \<lparr>date = ''20200102030405'', url = ''http://example.com/about''\<rparr>]"
proof -
  let ?r1 = "\<lparr>date = ''20200101000000'', url = ''http://sub.example.com/login''\<rparr>"
  let ?r2 = "\<lparr>date = ''20200102030405'', url = ''http://EXAMPLE.com:8080/''\<rparr>"
  let ?r3 = "\<lparr>date = [], url = ''http://[::1''\<rparr>"
  let ?u1 = "\<lparr>Host = ''sub.example.com''\<rparr>"
  let ?u2 = "\<lparr>Host = ''EXAMPLE.com:8080''\<rparr>"
  have p1: "url_Parse offline_sys (url ?r1) = Inr ?u1"
    and p2: "url_Parse offline_sys (url ?r2) = Inr ?u2"
    and p3: "url_Parse offline_sys (url ?r3) = Inl ''missing ] in host''"
    by (simp_all add: offline_sys_def example_Parse_def)
  have t: "strings_ToLower offline_sys ''example.com'' = ''example.com''"
    by (simp add: eval_host)
  have h1: "strings_ToLower offline_sys (Hostname ?u1) = ''sub.example.com''"
    by (simp add: eval_host)
  have h2: "strings_ToLower offline_sys (Hostname ?u2) = ''example.com''"
    by (simp add: eval_host)
  from subdomain_filter [of offline_sys "''example.com''" "[?r2, ?r3]" getWaybackURLs ?r1 _ ?u1]
    p1 h1 t
  have s1: "send_records offline_sys True ''example.com'' [?r1, ?r2, ?r3]
      = send_records offline_sys True ''example.com'' [?r2, ?r3]"
    by (simp del: send_records.simps)
  from subdomain_filter [of offline_sys "''example.com''" "[?r3]" getWaybackURLs ?r2 _ ?u2]
    p2 h2 t
  have s2: "send_records offline_sys True ''example.com'' [?r2, ?r3]
      = ?r2 # send_records offline_sys True ''example.com'' [?r3]"
    by (simp del: send_records.simps)
  from subdomain_filter [of offline_sys "''example.com''" "[]" getWaybackURLs ?r3
      "''missing ] in host''"] p3
  have s3: "send_records offline_sys True ''example.com'' [?r3] = [?r3]"
    by (simp del: send_records.simps(2))
  from subdomain_filter [of offline_sys "''example.com''" "[?r1, ?r2, ?r3]"]
  have s0: "send_records offline_sys False ''example.com'' [?r1, ?r2, ?r3] = [?r1, ?r2, ?r3]"
    by (simp del: send_records.simps)
  from subdomain_filter [of "archive_sys [cdx_header, capture_a, capture_b]" "''example.com''"
      "[\<lparr>date = ''20200101000000'', url = ''http://example.com/''\<rparr>,
        \<lparr>date = ''20200102030405'', url = ''http://example.com/about''\<rparr>]" getWaybackURLs]
    adapter_task_example
  have s4: "adapter_task (archive_sys [cdx_header, capture_a, capture_b]) getWaybackURLs
      ''example.com'' False
      = Inr [\<lparr>date = ''20200101000000'', url = ''http://example.com/''\<rparr>,
             \<lparr>date = ''20200102030405'', url = ''http://example.com/about''\<rparr>]"
    by blast
  show ?thesis by (simp only: s0 s1 s2 s3 s4)
qed

text \<open>
  Claim C4. When the variable \<^verbatim>\<open>VT_API_KEY\<close> is not set or is empty,
  \<^verbatim>\<open>getVirusTotalURLs\<close> requests nothing from the network and returns no record and a
  nil error; its goroutine sends nothing and ends as one that succeeded.
\<close>

theorem virustotal_without_key:
  "environ s ''VT_API_KEY'' = None \<or> environ s ''VT_API_KEY'' = Some [] \<Longrightarrow>
   getVirusTotalURLs s domain noSubs = ([], Return [] None)
   \<and> adapter_task s getVirusTotalURLs domain noSubs = Inr []"
  by (auto simp: getVirusTotalURLs_def os_Getenv_def adapter_task_def)

text \<open>The variable is not set, and the variable is set to the empty string.\<close>

theorem virustotal_without_key_witness:
  "getVirusTotalURLs offline_sys ''example.com'' False = ([], Return [] None)
   \<and> adapter_task offline_sys getVirusTotalURLs ''example.com'' False = Inr []
   \<and> getVirusTotalURLs (offline_sys\<lparr>environ := [''VT_API_KEY'' \<mapsto> []]\<rparr>) ''example.com'' True
       = ([], Return [] None)"
proof -
  have "environ offline_sys ''VT_API_KEY'' = None" by (simp add: offline_sys_def)
  with virustotal_without_key [of offline_sys "''example.com''" False]
  have a: "getVirusTotalURLs offline_sys ''example.com'' False = ([], Return [] None)
      \<and> adapter_task offline_sys getVirusTotalURLs ''example.com'' False = Inr []"
    by blast
  have "environ (offline_sys\<lparr>environ := [''VT_API_KEY'' \<mapsto> []]\<rparr>) ''VT_API_KEY'' = Some []"
    by simp
  with virustotal_without_key [of "offline_sys\<lparr>environ := [''VT_API_KEY'' \<mapsto> []]\<rparr>"
      "''example.com''" True]
  have b: "getVirusTotalURLs (offline_sys\<lparr>environ := [''VT_API_KEY'' \<mapsto> []]\<rparr>)
      ''example.com'' True = ([], Return [] None)"
    by blast
  from a b show ?thesis by simp
qed

text \<open>
  Claim C1 does not hold of the code where decoding is mandatory: \<^verbatim>\<open>getWaybackURLs\<close>
  and \<^verbatim>\<open>getVirusTotalURLs\<close> assign the decoder's error to \<^verbatim>\<open>err\<close> and return
  \<^verbatim>\<open>nil\<close> all the same (\<^verbatim>\<open>getVersions\<close> checks it). On an HTML error page both return
  no record and a nil error. On a body the decoder could fill only in part, the archive
  adapter returns what was filled, here a record with an empty URL, with a nil error,
  and the goroutine sends it.
\<close>

theorem decode_error_not_returned:
  "snd (getWaybackURLs error_page_sys ''example.com'' False) = Return [] None
   \<and> snd (getVirusTotalURLs error_page_sys ''example.com'' False) = Return [] None
   \<and> snd (getWaybackURLs mistyped_sys ''example.com'' False)
       = Return [\<lparr>date = ''20200101000000'', url = []\<rparr>] None
   \<and> adapter_task mistyped_sys getWaybackURLs ''example.com'' False
       = Inr [\<lparr>date = ''20200101000000'', url = []\<rparr>]"
proof -
  have e: "http_Get error_page_sys q
      = Inr \<lparr>body = ''<html><body><h1>503 Service Unavailable</h1></body></html>'',
               body_err = None\<rparr>" for q
    by (simp add: error_page_sys_def)
  have w1: "snd (getWaybackURLs error_page_sys ''example.com'' False) = Return [] None"
    by (simp add: getWaybackURLs_def Let_def e ioutil_ReadAll_def)
      (simp add: error_page_sys_def)
  have v1: "snd (getVirusTotalURLs error_page_sys ''example.com'' False) = Return [] None"
    by (simp add: getVirusTotalURLs_def Let_def e os_Getenv_def del: Sprintf.simps)
      (simp add: error_page_sys_def)
  have w2: "snd (getWaybackURLs mistyped_sys ''example.com'' False)
      = Return [\<lparr>date = ''20200101000000'', url = []\<rparr>] None"
    by (simp add: getWaybackURLs_def Let_def mistyped_sys_def ioutil_ReadAll_def index_def
        split: sum.splits)
  have t2: "adapter_task mistyped_sys getWaybackURLs ''example.com'' False
      = Inr [\<lparr>date = ''20200101000000'', url = []\<rparr>]"
    by (simp add: adapter_task_def w2)
  from w1 v1 w2 t2 show ?thesis by simp
qed

text \<open>
  Claim C8, as stated, fails: nothing is URL-encoded. For a target with a path and a
  query the archive-index request holds the target byte for byte, \<^verbatim>\<open>&\<close> included,
  and differs from the request that URL-encoding the marker and the target would give.
\<close>

theorem query_not_encoded_counterexample:
  "waybackQuery ''example.com/?a=1&b=2'' False
     = ''http://web.archive.org/cdx/search/cdx?url=*.example.com/?a=1&b=2/*&output=json&collapse=urlkey''
   \<and> encodedWaybackQuery ''example.com/?a=1&b=2'' False
     = ''http://web.archive.org/cdx/search/cdx?url=%2A.example.com%2F%3Fa%3D1%26b%3D2/*&output=json&collapse=urlkey''
   \<and> waybackQuery ''example.com/?a=1&b=2'' False \<noteq> encodedWaybackQuery ''example.com/?a=1&b=2'' False"
  by (simp add: waybackQuery_def encodedWaybackQuery_def unreserved_def upperhex_def)

text \<open>
  Claim C8, amended. The one request of the archive-index adapter and of the
  crawl-index adapter has the target, as given and not encoded, after \<^verbatim>\<open>url=\<close> and
  before \<^verbatim>\<open>/*\<close>; with \<^verbatim>\<open>noSubs\<close> false the marker \<^verbatim>\<open>*.\<close> stands before the target,
  with \<^verbatim>\<open>noSubs\<close> true nothing does.
\<close>

theorem query_verbatim:
  "fst (getWaybackURLs s domain False)
     = [''http://web.archive.org/cdx/search/cdx?url=*.'' @ domain @ ''/*&output=json&collapse=urlkey'']
   \<and> fst (getWaybackURLs s domain True)
     = [''http://web.archive.org/cdx/search/cdx?url='' @ domain @ ''/*&output=json&collapse=urlkey'']
   \<and> fst (getCommonCrawlURLs s domain False)
     = [''http://index.commoncrawl.org/CC-MAIN-2018-22-index?url=*.'' @ domain @ ''/*&output=json'']
   \<and> fst (getCommonCrawlURLs s domain True)
     = [''http://index.commoncrawl.org/CC-MAIN-2018-22-index?url='' @ domain @ ''/*&output=json'']"
  by (simp add: getWaybackURLs_requests getCommonCrawlURLs_requests waybackQuery_def
      commonCrawlQuery_def)

section \<open>Further properties\<close>

text \<open>
  Transport errors are returned. When the request fails, each adapter returns no record
  and the error of the request (the reputation-index adapter when it has a credential);
  the archive-index adapter does the same when reading the body fails. The goroutine of
  an adapter that returned an error sends nothing.
\<close>

theorem transport_error_returned:
  "(http_Get s (waybackQuery domain noSubs) = Inl err \<longrightarrow>
      snd (getWaybackURLs s domain noSubs) = Return [] (Some err))
   \<and> (http_Get s (waybackQuery domain noSubs) = Inr res \<and> ioutil_ReadAll res = Inl err \<longrightarrow>
      snd (getWaybackURLs s domain noSubs) = Return [] (Some err))
   \<and> (http_Get s (commonCrawlQuery domain noSubs) = Inl err \<longrightarrow>
      snd (getCommonCrawlURLs s domain noSubs) = Return [] (Some err))
   \<and> (os_Getenv s ''VT_API_KEY'' \<noteq> []
        \<and> http_Get s (Sprintf ''https://www.virustotal.com/vtapi/v2/domain/report?apikey=%s&domain=%s''
                        [os_Getenv s ''VT_API_KEY'', domain]) = Inl err \<longrightarrow>
      snd (getVirusTotalURLs s domain noSubs) = Return [] (Some err))
   \<and> (snd (fetch s domain noSubs) = Return resp (Some err) \<longrightarrow>
      adapter_task s fetch domain noSubs = Inr [])"
  by (simp add: getWaybackURLs_def getCommonCrawlURLs_def getVirusTotalURLs_def
      adapter_task_def Let_def del: Sprintf.simps)

text \<open>
  A machine without network, and a connection that breaks while the body is read.
\<close>

theorem transport_error_returned_witness:
  "snd (getWaybackURLs offline_sys ''example.com'' False)
     = Return [] (Some ''dial tcp: connection refused'')
   \<and> snd (getCommonCrawlURLs offline_sys ''example.com'' False)
     = Return [] (Some ''dial tcp: connection refused'')
   \<and> snd (getVirusTotalURLs (offline_sys\<lparr>environ := [''VT_API_KEY'' \<mapsto> ''0123456789abcdef'']\<rparr>)
            ''example.com'' False)
     = Return [] (Some ''dial tcp: connection refused'')
   \<and> adapter_task offline_sys getWaybackURLs ''example.com'' False = Inr []
   \<and> snd (getWaybackURLs
            (offline_sys\<lparr>http_Get := (\<lambda>q. Inr \<lparr>body = ''[['', body_err = Some ''unexpected EOF''\<rparr>)\<rparr>)
            ''example.com'' False)
     = Return [] (Some ''unexpected EOF'')"
proof -
  let ?e = "''dial tcp: connection refused''"
  let ?vt = "offline_sys\<lparr>environ := [''VT_API_KEY'' \<mapsto> ''0123456789abcdef'']\<rparr>"
  let ?cut = "offline_sys\<lparr>http_Get := (\<lambda>q. Inr \<lparr>body = ''[['', body_err = Some ''unexpected EOF''\<rparr>)\<rparr>"
  have g: "http_Get offline_sys q = Inl ?e" "http_Get ?vt q = Inl ?e" for q
    by (simp_all add: offline_sys_def)
  have k: "os_Getenv ?vt ''VT_API_KEY'' \<noteq> []" by (simp add: os_Getenv_def)
  have c: "http_Get ?cut (waybackQuery ''example.com'' False)
      = Inr \<lparr>body = ''[['', body_err = Some ''unexpected EOF''\<rparr>"
    "ioutil_ReadAll \<lparr>body = ''[['', body_err = Some ''unexpected EOF''\<rparr> = Inl ''unexpected EOF''"
    by (simp_all add: ioutil_ReadAll_def)
  note t1 = transport_error_returned [of offline_sys "''example.com''" False ?e _ getWaybackURLs "[]"]
  from t1 g have w: "snd (getWaybackURLs offline_sys ''example.com'' False) = Return [] (Some ?e)"
    and cc: "snd (getCommonCrawlURLs offline_sys ''example.com'' False) = Return [] (Some ?e)"
    by blast+
  from t1 w have tk: "adapter_task offline_sys getWaybackURLs ''example.com'' False = Inr []" by blast
  from transport_error_returned [of ?vt "''example.com''" False ?e] g k
  have vt: "snd (getVirusTotalURLs ?vt ''example.com'' False) = Return [] (Some ?e)" by blast
  from transport_error_returned [of ?cut "''example.com''" False "''unexpected EOF''"
      "\<lparr>body = ''[['', body_err = Some ''unexpected EOF''\<rparr>"] c
  have rd: "snd (getWaybackURLs ?cut ''example.com'' False) = Return [] (Some ''unexpected EOF'')"
    by blast
  from w cc vt tk rd show ?thesis by simp
qed

end
